theory Spec2Isabelle
  imports Main "HOL-Library.Word"
begin

unbundle bit_operations_syntax

section \<open>The write-ahead log of db/log\_writer.cc\<close>

text \<open>
  A shallow embedding of \<^verbatim>\<open>src/db/log_writer.cc\<close>: the log writer
  (\<^verbatim>\<open>Writer::AddRecord\<close>, \<^verbatim>\<open>Writer::EmitPhysicalRecord\<close>), the blob reader
  (\<^verbatim>\<open>WalBlobReader::GetBlob\<close>, \<^verbatim>\<open>Blob::ShrinkVal\<close>) and the index lookup
  (\<^verbatim>\<open>WalBlobReader::GetCFWalTupleOffsets\<close>, \<^verbatim>\<open>WalBlobReader::NewIteratorWithCF\<close>).

  Conventions of the embedding.
  \<^item> Bytes are \<open>8 word\<close>, CRCs are \<open>32 word\<close> and \<open>16 word\<close>. Sizes, offsets and counters
    (\<^verbatim>\<open>size_t\<close>, \<^verbatim>\<open>uint64_t\<close>) are \<open>nat\<close>; where the source subtracts two unsigned
    values without a guard, the wrap-around at \<open>2 ^ 64\<close> is written out (\<open>size_t_sub\<close>).
  \<^item> A failing \<^verbatim>\<open>assert\<close> ends the call: it is the result \<open>Inl AssertionFailed\<close>. An access
    outside a buffer is \<open>Inl MemoryFault\<close>. A call that returns gives \<open>Inr\<close> of its
    \<^verbatim>\<open>Status\<close> and of the state it leaves behind.
  \<^item> Pointers into a buffer are offsets from the start of the buffer; offsets that the source
    computes before the start of the buffer are negative integers.
\<close>

type_synonym byte = "8 word"

datatype fault = AssertionFailed | MemoryFault

datatype Status = OK | IOError string | Corruption string

subsection \<open>Record format\<close>

text \<open>
  Modelled from the spec: the constants and the record types of \<^verbatim>\<open>db/log_format.h\<close>, which
  is not among the sources (spec section 3: blocks of 32768 bytes, a legacy header of 7 bytes,
  a recyclable header of 11 bytes, type values 0 to 8).
\<close>

definition kBlockSize :: nat where
  "kBlockSize = 32768"

definition kHeaderSize :: nat where
  "kHeaderSize = 4 + 2 + 1"

definition kRecyclableHeaderSize :: nat where
  "kRecyclableHeaderSize = 4 + 1 + 4 + 2"

datatype RecordType =
    kZeroType
  | kFullType
  | kFirstType
  | kMiddleType
  | kLastType
  | kRecyclableFullType
  | kRecyclableFirstType
  | kRecyclableMiddleType
  | kRecyclableLastType

fun type_code :: "RecordType \<Rightarrow> nat" where
  "type_code kZeroType = 0"
| "type_code kFullType = 1"
| "type_code kFirstType = 2"
| "type_code kMiddleType = 3"
| "type_code kLastType = 4"
| "type_code kRecyclableFullType = 5"
| "type_code kRecyclableFirstType = 6"
| "type_code kRecyclableMiddleType = 7"
| "type_code kRecyclableLastType = 8"

text \<open>
  Modelled from the spec: \<^verbatim>\<open>EncodeFixed32\<close> and \<^verbatim>\<open>DecodeFixed32\<close> of
  \<^verbatim>\<open>util/coding.h\<close> (not among the sources): fixed-width little-endian integers.
\<close>

fun encode_le :: "nat \<Rightarrow> nat \<Rightarrow> byte list" where
  "encode_le 0 v = []"
| "encode_le (Suc k) v = of_nat (v mod 256) # encode_le k (v div 256)"

fun decode_le :: "byte list \<Rightarrow> nat" where
  "decode_le [] = 0"
| "decode_le (b # bs) = unat b + 256 * decode_le bs"

definition EncodeFixed32 :: "32 word \<Rightarrow> byte list" where
  "EncodeFixed32 v = encode_le 4 (unat v)"

definition DecodeFixed32 :: "byte list \<Rightarrow> 32 word" where
  "DecodeFixed32 bs = of_nat (decode_le (take 4 bs))"

subsection \<open>Checksums\<close>

text \<open>
  Modelled from the spec: \<^verbatim>\<open>crc32c::Extend\<close>, \<^verbatim>\<open>crc32c::Value\<close>, \<^verbatim>\<open>crc32c::Mask\<close> and
  \<^verbatim>\<open>crc32c::Unmask\<close> of \<^verbatim>\<open>util/crc32c.h\<close>, which is not among the sources. The CRC is
  CRC-32C (Castagnoli, reflected polynomial \<open>0x82F63B78\<close>, initial value and final
  complement \<open>0xffffffff\<close>), computed bit by bit. The spec gives
  \<open>mask(x) = ((x >> 15) | (x << 17)) + 0xa282ead8\<close> modulo \<open>2 ^ 32\<close>; \<open>Unmask\<close> subtracts
  the constant and rotates back.
\<close>

definition crc32c_bit :: "32 word \<Rightarrow> 32 word" where
  "crc32c_bit l = (if bit l 0 then drop_bit 1 l XOR 0x82F63B78 else drop_bit 1 l)"

definition crc32c_byte :: "32 word \<Rightarrow> byte \<Rightarrow> 32 word" where
  "crc32c_byte l b = (crc32c_bit ^^ 8) (l XOR ucast b)"

definition Extend :: "32 word \<Rightarrow> byte list \<Rightarrow> 32 word" where
  "Extend init_crc data = foldl crc32c_byte (init_crc XOR 0xffffffff) data XOR 0xffffffff"

definition Value :: "byte list \<Rightarrow> 32 word" where
  "Value data = Extend 0 data"

definition kMaskDelta :: "32 word" where
  "kMaskDelta = 0xa282ead8"

definition Mask :: "32 word \<Rightarrow> 32 word" where
  "Mask crc = (drop_bit 15 crc OR push_bit 17 crc) + kMaskDelta"

definition Unmask :: "32 word \<Rightarrow> 32 word" where
  "Unmask masked_crc =
     (let rot = masked_crc - kMaskDelta in drop_bit 17 rot OR push_bit 15 rot)"

subsection \<open>The destination file of the writer\<close>

text \<open>
  Modelled from the spec: \<^verbatim>\<open>WritableFileWriter\<close> of \<^verbatim>\<open>util/file_reader_writer.h\<close> (not
  among the sources), by its interface in spec section 6: \<open>append(bytes)\<close>, \<open>flush()\<close>,
  \<open>file_size()\<close>. The file is the bytes appended so far. The results of the coming I/O
  operations are a script, one status per operation, and every operation after the end of
  the script succeeds. An append that fails leaves the bytes of the file as they are.
\<close>

record WritableFileWriter =
  file_data :: "byte list"
  io_script :: "Status list"

definition next_io :: "WritableFileWriter \<Rightarrow> Status \<times> WritableFileWriter" where
  "next_io f =
     (case io_script f of
        [] \<Rightarrow> (OK, f)
      | s # rest \<Rightarrow> (s, f\<lparr>io_script := rest\<rparr>))"

definition Append :: "byte list \<Rightarrow> WritableFileWriter \<Rightarrow> Status \<times> WritableFileWriter" where
  "Append bytes f =
     (let (s, f') = next_io f
      in if s = OK then (OK, f'\<lparr>file_data := file_data f' @ bytes\<rparr>) else (s, f'))"

definition Flush :: "WritableFileWriter \<Rightarrow> Status \<times> WritableFileWriter" where
  "Flush f = next_io f"

definition GetFileSize :: "WritableFileWriter \<Rightarrow> nat" where
  "GetFileSize f = length (file_data f)"

subsection \<open>Writer\<close>

text \<open>
  The fields of \<^verbatim>\<open>log::Writer\<close> that \<^verbatim>\<open>AddRecord\<close> reads and writes. The table
  \<^verbatim>\<open>type_crc_\<close> is filled by the constructor and never changed: it is the function
  \<open>type_crc\<close>.
\<close>

record Writer =
  dest :: WritableFileWriter
  block_offset :: nat
  num_entries :: nat
  block_counts :: nat
  log_number :: nat
  recycle_log_files :: bool
  manual_flush :: bool

definition new_Writer :: "WritableFileWriter \<Rightarrow> nat \<Rightarrow> bool \<Rightarrow> bool \<Rightarrow> Writer" where
  "new_Writer d log_no recycle manual =
     \<lparr>dest = d, block_offset = 0, num_entries = 0, block_counts = 0, log_number = log_no,
      recycle_log_files = recycle, manual_flush = manual\<rparr>"

definition type_crc :: "RecordType \<Rightarrow> 32 word" where
  "type_crc t = Value [of_nat (type_code t)]"

text \<open>
  The part of \<^verbatim>\<open>WriteThread::Writer\<close> that \<^verbatim>\<open>AddRecord\<close> touches. The offset is unset
  when it is \<^verbatim>\<open>uint64_t(-1)\<close>.
\<close>

record WriteThread_Writer =
  is_recycle :: bool
  wal_offset_of_wb_content :: nat

definition uint64_max :: nat where
  "uint64_max = 2 ^ 64 - 1"

text \<open>
  Modelled from the spec: \<^verbatim>\<open>GetFirstEntryPhysicalOffset\<close> of \<^verbatim>\<open>db/log_format.h\<close>, which is
  not among the sources. Spec section 4.B: the file offset of the first payload byte of the
  record about to be written, that is the file size plus the header size, "where the
  starting block is either the current block (when avail \<ge> header\_size) or the next one".
\<close>

definition GetFirstEntryPhysicalOffset :: "nat \<Rightarrow> nat \<Rightarrow> nat \<Rightarrow> nat" where
  "GetFirstEntryPhysicalOffset file_size header_size avail =
     (if avail \<ge> header_size then file_size + header_size
      else (file_size div kBlockSize + 1) * kBlockSize + header_size)"

text \<open>\<^verbatim>\<open>Writer::EmitPhysicalRecord\<close> (lines 146 to 193); \<open>n\<close> is the length of \<open>ptr\<close>.\<close>

definition EmitPhysicalRecord ::
  "RecordType \<Rightarrow> byte list \<Rightarrow> Writer \<Rightarrow> fault + (Status \<times> Writer)" where
  "EmitPhysicalRecord t ptr w =
     (let n = length ptr in
      if \<not> n \<le> 0xffff then Inl AssertionFailed
      else
        let buf4 = (of_nat (n mod 256) :: byte);
            buf5 = (of_nat (n div 256) :: byte);
            buf6 = (of_nat (type_code t) :: byte);
            crc = type_crc t
        in
          case (if type_code t < type_code kRecyclableFullType then
                  if \<not> block_offset w + kHeaderSize + n \<le> kBlockSize then Inl AssertionFailed
                  else Inr (kHeaderSize, [], crc)
                else
                  if \<not> block_offset w + kRecyclableHeaderSize + n \<le> kBlockSize
                  then Inl AssertionFailed
                  else
                    let buf7 = EncodeFixed32 (of_nat (log_number w))
                    in Inr (kRecyclableHeaderSize, buf7, Extend crc buf7)) of
            Inl e \<Rightarrow> Inl e
          | Inr (header_size, buf7, crc1) \<Rightarrow>
              let crc2 = Extend crc1 ptr;
                  crc3 = Mask crc2;
                  buf = EncodeFixed32 crc3 @ [buf4, buf5, buf6] @ buf7;
                  (s1, d1) = Append (take header_size buf) (dest w);
                  (s, d) =
                    (if s1 = OK then
                       let (s2, d2) = Append ptr d1
                       in if s2 = OK then (if \<not> manual_flush w then Flush d2 else (s2, d2))
                          else (s2, d2)
                     else (s1, d1))
              in Inr (s, w\<lparr>dest := d, block_offset := block_offset w + header_size + n\<rparr>))"

text \<open>
  The header size that \<^verbatim>\<open>AddRecord\<close> computes once from the recycle flag (lines 78 and 79);
  the flag never changes.
\<close>

definition header_size_of :: "Writer \<Rightarrow> nat" where
  "header_size_of w = (if recycle_log_files w then kRecyclableHeaderSize else kHeaderSize)"

text \<open>
  Lines 90 to 106: when fewer than \<open>header_size\<close> bytes are left in the block, fill the
  trailer with zero bytes and switch to a new block. A status other than \<open>OK\<close> is the
  \<^verbatim>\<open>break\<close> of line 101.
\<close>

definition switch_block :: "Writer \<Rightarrow> fault + (Status \<times> Writer)" where
  "switch_block w =
     (let header_size = header_size_of w;
          leftover = int kBlockSize - int (block_offset w)
      in
        if \<not> leftover \<ge> 0 then Inl AssertionFailed
        else if leftover < int header_size then
          if leftover > 0 then
            if \<not> header_size \<le> 11 then Inl AssertionFailed
            else
              let (s, d) = Append (replicate (nat leftover) 0) (dest w)
              in if s \<noteq> OK then Inr (s, w\<lparr>dest := d\<rparr>)
                 else Inr (OK, w\<lparr>dest := d, block_offset := 0,
                                 block_counts := block_counts w + 1\<rparr>)
          else Inr (OK, w\<lparr>block_offset := 0, block_counts := block_counts w + 1\<rparr>)
        else Inr (OK, w))"

text \<open>Lines 126 to 134: record the payload offset once, in a writer handle that has none.\<close>

definition record_offset ::
  "Writer \<Rightarrow> WriteThread_Writer option \<Rightarrow> nat \<Rightarrow> fault + WriteThread_Writer option" where
  "record_offset w wt avail =
     (case wt of
        None \<Rightarrow> Inr None
      | Some t \<Rightarrow>
          if wal_offset_of_wb_content t = uint64_max then
            if GetFileSize (dest w) \<noteq> block_counts w * kBlockSize + block_offset w
            then Inl AssertionFailed
            else
              let off = GetFirstEntryPhysicalOffset (GetFileSize (dest w)) (header_size_of w) avail
              in if \<not> off mod kBlockSize \<ge> header_size_of w then Inl AssertionFailed
                 else Inr (Some (t\<lparr>wal_offset_of_wb_content := off\<rparr>))
          else Inr (Some t))"

text \<open>
  Lines 108 to 138: one fragment. The result holds the status of the emission, the writer,
  the writer handle and the bytes still to write (\<^verbatim>\<open>ptr\<close> and \<^verbatim>\<open>left\<close>).
\<close>

definition emit_fragment ::
  "Writer \<Rightarrow> WriteThread_Writer option \<Rightarrow> byte list \<Rightarrow> bool \<Rightarrow>
   fault + (Status \<times> Writer \<times> WriteThread_Writer option \<times> byte list)" where
  "emit_fragment w wt ptr is_begin =
     (let header_size = header_size_of w;
          left = length ptr
      in
        if \<not> int kBlockSize - int (block_offset w) \<ge> int header_size then Inl AssertionFailed
        else
          let avail = kBlockSize - block_offset w - header_size;
              fragment_length = (if left < avail then left else avail);
              is_end = (left = fragment_length);
              type =
                (if is_begin \<and> is_end then
                   (if recycle_log_files w then kRecyclableFullType else kFullType)
                 else if is_begin then
                   (if recycle_log_files w then kRecyclableFirstType else kFirstType)
                 else if is_end then
                   (if recycle_log_files w then kRecyclableLastType else kLastType)
                 else
                   (if recycle_log_files w then kRecyclableMiddleType else kMiddleType))
          in
            case record_offset w wt avail of
              Inl e \<Rightarrow> Inl e
            | Inr wt' \<Rightarrow>
                (case EmitPhysicalRecord type (take fragment_length ptr) w of
                   Inl e \<Rightarrow> Inl e
                 | Inr (s, w') \<Rightarrow> Inr (s, w', wt', drop fragment_length ptr)))"

text \<open>
  The measure of the loop: the bytes left, and one more step when the block has room for a
  header and nothing else (the fragment emitted there is empty).
\<close>

definition loop_measure :: "Writer \<Rightarrow> byte list \<Rightarrow> nat" where
  "loop_measure w ptr =
     2 * length ptr + (if block_offset w + header_size_of w = kBlockSize then 1 else 0)"

lemma EmitPhysicalRecord_block_offset:
  assumes "EmitPhysicalRecord t ptr w = Inr (s, w')"
  shows "block_offset w' =
           block_offset w
           + (if type_code t < 5 then kHeaderSize else kRecyclableHeaderSize) + length ptr
         \<and> recycle_log_files w' = recycle_log_files w"
  using assms
  by (auto simp: EmitPhysicalRecord_def Let_def split: if_splits prod.splits)

lemma switch_block_offset:
  assumes "switch_block w = Inr (OK, w0)"
  shows "recycle_log_files w0 = recycle_log_files w
         \<and> block_offset w0 + header_size_of w \<le> kBlockSize
         \<and> (block_offset w0 = block_offset w \<or> block_offset w0 = 0)"
  using assms
  by (auto simp: switch_block_def Let_def header_size_of_def kHeaderSize_def
                 kRecyclableHeaderSize_def kBlockSize_def split: if_splits prod.splits)

lemma loop_measure_decreases:
  assumes sw: "switch_block w = Inr (OK, w0)"
    and em: "emit_fragment w0 wt ptr is_begin = Inr (s, w1, wt1, ptr1)"
    and more: "ptr1 \<noteq> []"
  shows "loop_measure w1 ptr1 < loop_measure w ptr"
proof -
  from switch_block_offset [OF sw]
  have rc: "recycle_log_files w0 = recycle_log_files w"
    and room: "block_offset w0 + header_size_of w \<le> kBlockSize"
    and same: "block_offset w0 = block_offset w \<or> block_offset w0 = 0"
    by simp_all
  have hs: "header_size_of w0 = header_size_of w"
    by (simp add: header_size_of_def rc)
  define avail where "avail = kBlockSize - block_offset w0 - header_size_of w"
  define frag where "frag = (if length ptr < avail then length ptr else avail)"
  from em obtain ty where
    emit: "EmitPhysicalRecord ty (take frag ptr) w0 = Inr (s, w1)"
    and ty: "type_code ty < 5 \<longleftrightarrow> \<not> recycle_log_files w0"
    and rest: "ptr1 = drop frag ptr"
    by (auto simp: emit_fragment_def Let_def hs avail_def frag_def
             split: if_splits sum.splits prod.splits)
  from more rest have short: "frag < length ptr" by simp
  then have frag_avail: "frag = avail" by (simp add: frag_def split: if_splits)
  from EmitPhysicalRecord_block_offset [OF emit] ty short
  have bo1: "block_offset w1 = block_offset w0 + header_size_of w0 + frag"
    and rc1: "recycle_log_files w1 = recycle_log_files w0"
    by (auto simp: header_size_of_def)
  have hs1: "header_size_of w1 = header_size_of w"
    by (simp add: header_size_of_def rc rc1)
  have pos: "0 < header_size_of w"
    by (simp add: header_size_of_def kHeaderSize_def kRecyclableHeaderSize_def)
  show ?thesis
  proof (cases "frag = 0")
    case True
    with frag_avail room have full: "block_offset w0 + header_size_of w = kBlockSize"
      by (simp add: avail_def)
    with same pos have "block_offset w + header_size_of w = kBlockSize"
      by (auto simp: header_size_of_def kHeaderSize_def kRecyclableHeaderSize_def
                     kBlockSize_def split: if_splits)
    moreover have "block_offset w1 + header_size_of w1 \<noteq> kBlockSize"
      using bo1 full pos True by (simp add: hs hs1)
    ultimately show ?thesis
      using rest True by (simp add: loop_measure_def)
  next
    case False
    with rest short have "length ptr1 < length ptr" by simp
    then show ?thesis by (simp add: loop_measure_def)
  qed
qed

text \<open>The \<^verbatim>\<open>do ... while (s.ok() && left > 0)\<close> loop of lines 89 to 139.\<close>

function AddRecord_loop ::
  "Writer \<Rightarrow> WriteThread_Writer option \<Rightarrow> byte list \<Rightarrow> bool \<Rightarrow>
   fault + (Status \<times> Writer \<times> WriteThread_Writer option)" where
  "AddRecord_loop w wt ptr is_begin =
     (case switch_block w of
        Inl e \<Rightarrow> Inl e
      | Inr (s0, w0) \<Rightarrow>
          if s0 \<noteq> OK then Inr (s0, w0, wt)
          else
            (case emit_fragment w0 wt ptr is_begin of
               Inl e \<Rightarrow> Inl e
             | Inr (s, w1, wt1, ptr1) \<Rightarrow>
                 if s = OK \<and> length ptr1 > 0 then AddRecord_loop w1 wt1 ptr1 False
                 else Inr (s, w1, wt1)))"
  by pat_completeness auto
termination
proof (relation "measure (\<lambda>(w, wt, ptr, is_begin). loop_measure w ptr)")
  show "wf (measure (\<lambda>(w, wt, ptr, is_begin). loop_measure w ptr))"
    by simp
next
  fix w wt ptr is_begin x2 s0 w0 x2a s y w1 ya wt1 ptr1
  assume "switch_block w = Inr x2" "(s0, w0) = x2" "\<not> s0 \<noteq> OK"
    "emit_fragment w0 wt ptr is_begin = Inr x2a" "(s, y) = x2a" "(w1, ya) = y"
    "(wt1, ptr1) = ya" "s = OK \<and> 0 < length ptr1"
  then have "switch_block w = Inr (OK, w0)"
    and "emit_fragment w0 wt ptr is_begin = Inr (s, w1, wt1, ptr1)"
    and "ptr1 \<noteq> []"
    by auto
  from loop_measure_decreases [OF this]
  show "((w1, wt1, ptr1, False), w, wt, ptr, is_begin)
        \<in> measure (\<lambda>(w, wt, ptr, is_begin). loop_measure w ptr)"
    by simp
qed

declare AddRecord_loop.simps [simp del]

text \<open>\<^verbatim>\<open>Writer::AddRecord\<close> (lines 71 to 142).\<close>

definition AddRecord ::
  "byte list \<Rightarrow> nat \<Rightarrow> WriteThread_Writer option \<Rightarrow> Writer \<Rightarrow>
   fault + (Status \<times> Writer \<times> WriteThread_Writer option)" where
  "AddRecord record_bytes n wt w =
     (if recycle_log_files w then Inl AssertionFailed
      else
        let wt0 = map_option (\<lambda>t. t\<lparr>is_recycle := recycle_log_files w\<rparr>) wt
        in case AddRecord_loop w wt0 record_bytes True of
             Inl e \<Rightarrow> Inl e
           | Inr (s, w', wt') \<Rightarrow> Inr (s, w'\<lparr>num_entries := num_entries w' + n\<rparr>, wt'))"

subsection \<open>Handles\<close>

text \<open>
  Modelled from the spec: \<^verbatim>\<open>DefaultLogHandle\<close> of \<^verbatim>\<open>db/log_format.h\<close> (not among the
  sources). Spec section 3: a packed little-endian struct of 16 bytes, \<open>offset\<close> (8 bytes),
  \<open>length\<close> (4 bytes), \<open>head_crc\<close> (2 bytes), \<open>tail_crc\<close> (2 bytes).
\<close>

record DefaultLogHandle =
  offset :: nat
  length_h :: nat
  head_crc :: "16 word"
  tail_crc :: "16 word"

definition kDefaultLogHandleSize :: nat where
  "kDefaultLogHandleSize = 16"

definition DefaultLogHandle_of :: "byte list \<Rightarrow> DefaultLogHandle" where
  "DefaultLogHandle_of bs =
     \<lparr>offset = decode_le (take 8 bs),
      length_h = decode_le (take 4 (drop 8 bs)),
      head_crc = of_nat (decode_le (take 2 (drop 12 bs))),
      tail_crc = of_nat (decode_le (take 2 (drop 14 bs)))\<rparr>"

definition handle_bytes :: "DefaultLogHandle \<Rightarrow> byte list" where
  "handle_bytes h =
     encode_le 8 (offset h) @ encode_le 4 (length_h h)
     @ encode_le 2 (unat (head_crc h)) @ encode_le 2 (unat (tail_crc h))"

text \<open>
  Modelled from the spec: \<^verbatim>\<open>GetPhysicalLength\<close> of \<^verbatim>\<open>db/log_format.h\<close> (not among the
  sources), as spec section 4.A derives it: the bytes that a record of the given logical
  length occupies in the file from the given payload offset on.
\<close>

definition GetPhysicalLength :: "nat \<Rightarrow> nat \<Rightarrow> nat \<Rightarrow> nat" where
  "GetPhysicalLength logical_length off header_size =
     (let avail_first = kBlockSize - off mod kBlockSize
      in if logical_length \<le> avail_first then logical_length
         else
           let head = avail_first;
               rest = logical_length - head;
               per_block = kBlockSize - header_size;
               full = rest div per_block;
               tail = rest mod per_block
           in head + full * kBlockSize + (if tail = 0 then 0 else header_size + tail))"

subsection \<open>The file and the cache of the reader\<close>

text \<open>
  Modelled from the spec: \<^verbatim>\<open>RandomAccessFile\<close> of \<^verbatim>\<open>rocksdb/env.h\<close> (not among the
  sources), by its interface in spec section 6: \<open>read(offset, len, out_slice, scratch)\<close>
  and \<open>unique_id\<close>. A read that succeeds gives the bytes of the file from \<open>off\<close> on, at most
  \<open>n\<close> of them, in the scratch buffer.
\<close>

record RandomAccessFile =
  src_bytes :: "byte list"
  read_result :: Status
  unique_id :: "byte list"

definition Read :: "RandomAccessFile \<Rightarrow> nat \<Rightarrow> nat \<Rightarrow> Status \<times> byte list" where
  "Read f off n =
     (if read_result f = OK then (OK, take n (drop off (src_bytes f)))
      else (read_result f, []))"

text \<open>
  \<^verbatim>\<open>class Blob\<close> (lines 206 to 250). \<open>b_buf\<close> is the buffer \<^verbatim>\<open>buf_\<close>, \<open>b_size\<close> is
  \<^verbatim>\<open>size_\<close>, and the slice \<^verbatim>\<open>slice_\<close> starts at the buffer and has \<open>b_slice\<close> bytes.
\<close>

record Blob =
  b_buf :: "byte list"
  b_size :: nat
  b_slice :: nat

definition slice_of :: "Blob \<Rightarrow> byte list" where
  "slice_of b = take (b_slice b) (b_buf b)"

definition new_Blob :: "nat \<Rightarrow> Blob" where
  "new_Blob capacity = \<lparr>b_buf = replicate capacity 0, b_size = capacity, b_slice = 0\<rparr>"

definition sizeof_Blob :: nat where
  "sizeof_Blob = 32"

text \<open>
  The blob cache is a collaborator outside the repository's log code
  (\<^verbatim>\<open>rocksdb/cache.h\<close>): \<^verbatim>\<open>GetBlob\<close> takes its two operations as parameters, over any
  type \<open>'c\<close> of cache states. \<open>Lookup\<close> gives the cached blob of a key, if there is one;
  \<open>Insert\<close> takes the key, the blob and the charge and gives a status and the new cache.
\<close>

record 'c Cache =
  Lookup :: "'c \<Rightarrow> byte list \<Rightarrow> Blob option"
  Insert :: "'c \<Rightarrow> byte list \<Rightarrow> Blob \<Rightarrow> nat \<Rightarrow> Status \<times> 'c"

subsection \<open>Blob reader\<close>

record WalBlobReader =
  src :: RandomAccessFile
  wal_header_size :: nat
  reader_log_number :: nat
  index_file_data :: "byte list option"

text \<open>The constructor (lines 195 to 204); no index file is mapped yet.\<close>

definition new_WalBlobReader :: "RandomAccessFile \<Rightarrow> nat \<Rightarrow> nat \<Rightarrow> WalBlobReader" where
  "new_WalBlobReader f log_no recycle_log_file_num =
     \<lparr>src = f,
      wal_header_size =
        (if recycle_log_file_num > 0 then kRecyclableHeaderSize else kHeaderSize),
      reader_log_number = log_no,
      index_file_data = None\<rparr>"

text \<open>Subtraction of two \<^verbatim>\<open>size_t\<close> values, which wraps around.\<close>

definition size_t_sub :: "nat \<Rightarrow> nat \<Rightarrow> nat" where
  "size_t_sub a b = (if b \<le> a then a - b else a + 2 ^ 64 - b)"

text \<open>\<^verbatim>\<open>memmove\<close> inside one buffer; the two ranges must lie in the buffer.\<close>

definition memmove :: "byte list \<Rightarrow> nat \<Rightarrow> nat \<Rightarrow> nat \<Rightarrow> fault + byte list" where
  "memmove b dst src_off n =
     (if src_off + n \<le> length b \<and> dst + n \<le> length b
      then Inr (take dst b @ take n (drop src_off b) @ drop (dst + n) b)
      else Inl MemoryFault)"

text \<open>
  The loop of \<^verbatim>\<open>Blob::ShrinkVal\<close> (lines 224 to 233). When \<open>cur_size\<close> is less than the
  header size, \<open>actual_size\<close> wraps around to nearly \<open>2 ^ 64\<close> and \<^verbatim>\<open>memmove\<close> leaves the
  buffer.
\<close>

function ShrinkVal_loop :: "nat \<Rightarrow> byte list \<Rightarrow> nat \<Rightarrow> nat \<Rightarrow> fault + (byte list \<times> nat)" where
  "ShrinkVal_loop record_header_size b cur_offset remain_bytes =
     (if remain_bytes > 0 then
        let kBlockAvailSize = size_t_sub kBlockSize record_header_size;
            cur_size = (if remain_bytes > kBlockAvailSize then kBlockAvailSize
                        else remain_bytes);
            actual_data = cur_offset + record_header_size;
            actual_size = size_t_sub cur_size record_header_size
        in
          if cur_size < record_header_size then Inl MemoryFault
          else
            (case memmove b cur_offset actual_data actual_size of
               Inl e \<Rightarrow> Inl e
             | Inr b' \<Rightarrow>
                 ShrinkVal_loop record_header_size b' (cur_offset + actual_size)
                   (remain_bytes - cur_size))
      else Inr (b, cur_offset))"
  by pat_completeness auto
termination
proof (relation "measure (\<lambda>(hs, b, cur, remain). remain)")
  show "wf (measure (\<lambda>(hs, b, cur, remain). remain))"
    by simp
next
  fix record_header_size :: nat and b :: "byte list" and cur_offset remain_bytes :: nat
    and x xa :: nat
  assume pos: "0 < remain_bytes"
    and x: "x = size_t_sub kBlockSize record_header_size"
    and xa: "xa = (if x < remain_bytes then x else remain_bytes)"
    and ge: "\<not> xa < record_header_size"
  have "0 < xa"
  proof (cases "record_header_size = 0")
    case True
    then have "x = kBlockSize" using x by (simp add: size_t_sub_def)
    then show ?thesis using xa pos by (simp add: kBlockSize_def)
  next
    case False
    then show ?thesis using ge by simp
  qed
  then have "remain_bytes - xa < remain_bytes" using pos by simp
  then show "\<And>xb xc x2. xb = cur_offset + record_header_size \<Longrightarrow>
       xc = size_t_sub xa record_header_size \<Longrightarrow>
       memmove b cur_offset xb xc = Inr x2 \<Longrightarrow>
       ((record_header_size, x2, cur_offset + xc, remain_bytes - xa),
        record_header_size, b, cur_offset, remain_bytes)
       \<in> measure (\<lambda>(hs, b, cur, remain). remain)"
    by simp
qed

declare ShrinkVal_loop.simps [simp del]

text \<open>\<^verbatim>\<open>Blob::ShrinkVal\<close> (lines 218 to 238).\<close>

definition ShrinkVal :: "nat \<Rightarrow> nat \<Rightarrow> Blob \<Rightarrow> fault + Blob" where
  "ShrinkVal head_size record_header_size blob =
     (if \<not> (head_size \<noteq> 0 \<and> b_size blob = b_slice blob) then Inl AssertionFailed
      else
        case ShrinkVal_loop record_header_size (b_buf blob) head_size
               (size_t_sub (b_size blob) head_size) of
          Inl e \<Rightarrow> Inl e
        | Inr (b', cur_offset) \<Rightarrow>
            Inr (blob\<lparr>b_buf := b', b_size := cur_offset, b_slice := cur_offset\<rparr>))"

text \<open>\<^verbatim>\<open>WalBlobReader::GenerateCacheUniqueId\<close> (lines 260 to 270).\<close>

definition GenerateCacheUniqueId :: "WalBlobReader \<Rightarrow> byte list \<Rightarrow> byte list" where
  "GenerateCacheUniqueId rdr log_handle = unique_id (src rdr) @ log_handle"

text \<open>Lines 293 to 302 of \<^verbatim>\<open>GetBlob\<close>: the physical length, the head size and the tail size.\<close>

definition blob_sizes :: "WalBlobReader \<Rightarrow> DefaultLogHandle \<Rightarrow> fault + (nat \<times> nat \<times> nat)" where
  "blob_sizes rdr content =
     (let blob_physical_length =
            GetPhysicalLength (length_h content) (offset content) (wal_header_size rdr)
      in
        if blob_physical_length > length_h content then
          let head_size = kBlockSize - offset content mod kBlockSize
          in if \<not> (head_size \<noteq> 0 \<and> head_size \<noteq> kBlockSize) then Inl AssertionFailed
             else
               let kBlockAvailSize = size_t_sub kBlockSize (wal_header_size rdr);
                   tail_size = size_t_sub (length_h content) head_size mod kBlockAvailSize
               in Inr (blob_physical_length, head_size, tail_size)
        else Inr (blob_physical_length, length_h content, 0))"

text \<open>
  Lines 328 to 345 of \<^verbatim>\<open>GetBlob\<close>: the scan of the middle fragments. \<open>header\<close> and
  \<open>tailer\<close> are offsets from \<^verbatim>\<open>blob->slice_.data()\<close>; the source sets
  \<^verbatim>\<open>tailer = blob->slice_.data() - tail_size\<close>.
\<close>

function check_middle :: "nat \<Rightarrow> byte list \<Rightarrow> int \<Rightarrow> int \<Rightarrow> fault + unit" where
  "check_middle header_size data header tailer =
     (if header \<le> tailer - int kBlockSize then
        if header < 0 \<or> int (length data) < header + 7 then Inl MemoryFault
        else
          let h = drop (nat header) data;
              a = unat (h ! 4);
              b = unat (h ! 5);
              type = h ! 6;
              len = a + 256 * b
          in
            if type \<noteq> of_nat (type_code kMiddleType) then Inl AssertionFailed
            else
              let expected_crc = Unmask (DecodeFixed32 h);
                  n = len + header_size - 6
              in
                if length h < 6 + n then Inl MemoryFault
                else if Value (take n (drop 6 h)) \<noteq> expected_crc then Inl AssertionFailed
                else check_middle header_size data (header + int kBlockSize) tailer
      else Inr ())"
  by pat_completeness auto
termination
  by (relation "measure (\<lambda>(hs, data, header, tailer). nat (tailer - header))")
     (auto simp: kBlockSize_def)

declare check_middle.simps [simp del]

text \<open>
  \<^verbatim>\<open>WalBlobReader::GetBlob\<close> (lines 272 to 360). \<open>Crc16c_update\<close> is
  \<^verbatim>\<open>terark::Crc16c_update\<close> of \<^verbatim>\<open>terark/util/crc.hpp\<close>, a library outside the repository:
  it is a parameter. The result holds the status, the bytes of the slice handed to
  \<^verbatim>\<open>lazy_blob\<close>, the cache, and the number of reads of the log file that the call made.
\<close>

definition GetBlob ::
  "(16 word \<Rightarrow> byte list \<Rightarrow> 16 word) \<Rightarrow> 'c Cache \<Rightarrow> WalBlobReader \<Rightarrow> 'c \<Rightarrow> byte list \<Rightarrow>
   fault + (Status \<times> byte list \<times> 'c \<times> nat)" where
  "GetBlob Crc16c_update blob_cache rdr c log_handle =
     (if length log_handle \<noteq> kDefaultLogHandleSize then Inl AssertionFailed
      else
        let blob_uid = GenerateCacheUniqueId rdr log_handle
        in
          case Lookup blob_cache c blob_uid of
            Some b \<Rightarrow> Inr (OK, slice_of b, c, 0)
          | None \<Rightarrow>
              let content = DefaultLogHandle_of log_handle
              in
                case blob_sizes rdr content of
                  Inl e \<Rightarrow> Inl e
                | Inr (blob_physical_length, head_size, tail_size) \<Rightarrow>
                    let blob0 = new_Blob blob_physical_length;
                        (s, bytes) = Read (src rdr) (offset content) blob_physical_length;
                        blob = blob0\<lparr>b_buf := bytes @ drop (length bytes) (b_buf blob0),
                                     b_slice := length bytes\<rparr>
                    in
                      if s \<noteq> OK then Inl AssertionFailed
                      else if \<not> (b_slice blob \<noteq> 0 \<and> b_slice blob = blob_physical_length)
                      then Inl AssertionFailed
                      else if head_size \<noteq> 0
                              \<and> head_crc content
                                  \<noteq> Crc16c_update 0 (take head_size (slice_of blob))
                      then Inl AssertionFailed
                      else if tail_size \<noteq> 0
                              \<and> Crc16c_update 0
                                    (take tail_size
                                       (drop (b_slice blob - tail_size) (slice_of blob)))
                                  \<noteq> tail_crc content
                      then Inl AssertionFailed
                      else
                        case check_middle (wal_header_size rdr) (slice_of blob)
                               (int head_size) (- int tail_size) of
                          Inl e \<Rightarrow> Inl e
                        | Inr u \<Rightarrow>
                            (case (if head_size \<noteq> length_h content
                                   then ShrinkVal head_size (wal_header_size rdr) blob
                                   else Inr blob) of
                               Inl e \<Rightarrow> Inl e
                             | Inr blob' \<Rightarrow>
                                 let (s', c') =
                                       Insert blob_cache c blob_uid blob'
                                         (sizeof_Blob + b_size blob')
                                 in if s' \<noteq> OK then Inl AssertionFailed
                                    else Inr (OK, slice_of blob', c', 1)))"

subsection \<open>Index file\<close>












section \<open>Properties\<close>

subsection \<open>Writer\<close>

text \<open>The state of a writer between two calls of AddRecord: the header is one of the
  two header sizes and the block offset does not exceed the block size.\<close>
definition writer_inv :: "Writer \<Rightarrow> bool" where
  "writer_inv w \<longleftrightarrow>
     GetFileSize (dest w) = block_counts w * kBlockSize + block_offset w
     \<and> block_offset w \<le> kBlockSize"

text \<open>The writers that a sequence of AddRecord calls produces from a writer created
  on an empty position of a block.\<close>
inductive reachable :: "Writer \<Rightarrow> bool" where
  fresh: "file_data d = [] \<Longrightarrow> reachable (new_Writer d log_no recycle manual)"
| added: "reachable w \<Longrightarrow> AddRecord record_bytes n wt w = Inr (OK, w', wt') \<Longrightarrow> reachable w'"

lemma Append_data:
  assumes "Append bytes f = (s, f')"
  shows "file_data f' = (if s = OK then file_data f @ bytes else file_data f)"
  using assms
  by (auto simp: Append_def next_io_def Let_def split: list.splits if_splits)

lemma Flush_data:
  assumes "Flush f = (s, f')"
  shows "file_data f' = file_data f"
  using assms by (auto simp: Flush_def next_io_def split: list.splits)

text \<open>Two writers agree on everything AddRecord's loop leaves alone.\<close>
definition same_config :: "Writer \<Rightarrow> Writer \<Rightarrow> bool" where
  "same_config w w' \<longleftrightarrow>
     log_number w' = log_number w \<and> recycle_log_files w' = recycle_log_files w
     \<and> manual_flush w' = manual_flush w \<and> num_entries w' = num_entries w"

text \<open>The number of bytes of padding written when the rest of the block cannot hold
  a header.\<close>
definition pad_length :: "Writer \<Rightarrow> nat" where
  "pad_length w =
     (if kBlockSize - block_offset w < header_size_of w then kBlockSize - block_offset w else 0)"

lemma header_size_of_bounds: "0 < header_size_of w" "header_size_of w \<le> 11" "header_size_of w < kBlockSize"
  by (simp_all add: header_size_of_def kHeaderSize_def kRecyclableHeaderSize_def kBlockSize_def)

lemma switch_block_OK:
  assumes "switch_block w = Inr (OK, w0)"
  shows "file_data (dest w0) = file_data (dest w) @ replicate (pad_length w) 0"
    and "block_offset w0 = (if kBlockSize - block_offset w < header_size_of w then 0 else block_offset w)"
    and "block_counts w0 = (if kBlockSize - block_offset w < header_size_of w then block_counts w + 1 else block_counts w)"
    and "same_config w w0"
    and "block_offset w \<le> kBlockSize"
  using assms
  by (auto simp: switch_block_def Let_def pad_length_def same_config_def nat_diff_distrib
           split: if_splits prod.splits dest!: Append_data)


lemma EmitPhysicalRecord_result:
  assumes "EmitPhysicalRecord t ptr w = Inr (s, w')"
  shows "block_offset w' = block_offset w + (if type_code t < 5 then kHeaderSize else kRecyclableHeaderSize) + length ptr"
    and "block_offset w' \<le> kBlockSize"
    and "block_counts w' = block_counts w"
    and "same_config w w'"
  using assms
  by (auto simp: EmitPhysicalRecord_def Let_def same_config_def split: if_splits prod.splits)

lemma length_encode_le [simp]: "length (encode_le k v) = k"
  by (induction k arbitrary: v) auto

lemma EmitPhysicalRecord_OK:
  assumes "EmitPhysicalRecord t ptr w = Inr (OK, w')"
  shows "\<exists>hdr. length hdr = (if type_code t < 5 then kHeaderSize else kRecyclableHeaderSize)
          \<and> file_data (dest w') = file_data (dest w) @ hdr @ ptr"
  using assms
  by (auto simp: EmitPhysicalRecord_def Let_def EncodeFixed32_def kHeaderSize_def kRecyclableHeaderSize_def
           split: if_splits prod.splits dest!: Append_data Flush_data)


text \<open>The length of the fragment the loop emits next.\<close>
definition fragment_length :: "Writer \<Rightarrow> byte list \<Rightarrow> nat" where
  "fragment_length w ptr = min (length ptr) (kBlockSize - block_offset w - header_size_of w)"

lemma emit_fragment_result:
  assumes "emit_fragment w wt ptr is_begin = Inr (s, w1, wt1, ptr1)"
  shows "block_offset w + header_size_of w \<le> kBlockSize"
    and "ptr1 = drop (fragment_length w ptr) ptr"
    and "block_offset w1 = block_offset w + header_size_of w + fragment_length w ptr"
    and "block_counts w1 = block_counts w"
    and "same_config w w1"
    and "s = OK \<Longrightarrow> \<exists>hdr. length hdr = header_size_of w
           \<and> file_data (dest w1) = file_data (dest w) @ hdr @ take (fragment_length w ptr) ptr"
proof -
  define frag where "frag = (if length ptr < kBlockSize - block_offset w - header_size_of w then length ptr
     else kBlockSize - block_offset w - header_size_of w)"
  have frag: "frag = fragment_length w ptr" by (simp add: frag_def fragment_length_def min_def)
  from assms obtain ty where
    emit: "EmitPhysicalRecord ty (take frag ptr) w = Inr (s, w1)"
    and ty: "type_code ty < 5 \<longleftrightarrow> \<not> recycle_log_files w"
    and rest: "ptr1 = drop frag ptr"
    and room: "block_offset w + header_size_of w \<le> kBlockSize"
    by (auto simp: emit_fragment_def Let_def frag_def
             split: if_splits sum.splits prod.splits)
  have len: "length (take frag ptr) = frag" by (simp add: frag_def)
  have hs: "(if type_code ty < 5 then kHeaderSize else kRecyclableHeaderSize) = header_size_of w"
    using ty by (simp add: header_size_of_def)
  show "block_offset w + header_size_of w \<le> kBlockSize" by (rule room)
  show "ptr1 = drop (fragment_length w ptr) ptr" using rest frag by simp
  show "block_offset w1 = block_offset w + header_size_of w + fragment_length w ptr"
    using EmitPhysicalRecord_result(1) [OF emit] hs len frag by simp
  show "block_counts w1 = block_counts w" by (rule EmitPhysicalRecord_result(3) [OF emit])
  show "same_config w w1" by (rule EmitPhysicalRecord_result(4) [OF emit])
  show "s = OK \<Longrightarrow> \<exists>hdr. length hdr = header_size_of w
           \<and> file_data (dest w1) = file_data (dest w) @ hdr @ take (fragment_length w ptr) ptr"
    using EmitPhysicalRecord_OK [of ty "take frag ptr" w w1] emit hs frag by auto
qed

lemma AddRecord_loop_cases:
  assumes "AddRecord_loop w wt ptr is_begin = Inr (s', w', wt')"
  obtains (break) s0 where "switch_block w = Inr (s0, w')" "s0 \<noteq> OK" "s' = s0" "wt' = wt"
  | (last) w0 ptr1 where "switch_block w = Inr (OK, w0)"
      "emit_fragment w0 wt ptr is_begin = Inr (s', w', wt', ptr1)" "s' = OK \<Longrightarrow> ptr1 = []"
  | (more) w0 w1 wt1 ptr1 where "switch_block w = Inr (OK, w0)"
      "emit_fragment w0 wt ptr is_begin = Inr (OK, w1, wt1, ptr1)" "ptr1 \<noteq> []"
      "AddRecord_loop w1 wt1 ptr1 False = Inr (s', w', wt')"
  using assms
  by (subst (asm) AddRecord_loop.simps) (auto split: sum.splits prod.splits if_splits)

lemma same_config_trans: "same_config a b \<Longrightarrow> same_config b c \<Longrightarrow> same_config a c"
  by (simp add: same_config_def)


lemma switch_block_inv:
  assumes "switch_block w = Inr (OK, w0)" "writer_inv w"
  shows "writer_inv w0"
  using switch_block_OK [OF assms(1)] assms(2) header_size_of_bounds [of w]
  by (auto simp: writer_inv_def GetFileSize_def pad_length_def split: if_splits)

lemma emit_fragment_inv:
  assumes "emit_fragment w wt ptr is_begin = Inr (OK, w1, wt1, ptr1)" "writer_inv w"
  shows "writer_inv w1"
proof -
  note r = emit_fragment_result [OF assms(1)]
  from r(6) obtain hdr where "length hdr = header_size_of w"
    "file_data (dest w1) = file_data (dest w) @ hdr @ take (fragment_length w ptr) ptr" by auto
  then show ?thesis using r(1,3,4) assms(2)
    by (auto simp: writer_inv_def GetFileSize_def fragment_length_def)
qed

lemma AddRecord_loop_inv:
  assumes "AddRecord_loop w wt ptr is_begin = Inr (OK, w', wt')" "writer_inv w"
  shows "writer_inv w' \<and> same_config w w'"
  using assms
proof (induction w wt ptr is_begin rule: AddRecord_loop.induct)
  case (1 w wt ptr is_begin)
  from "1.prems"(1) show ?case
  proof (cases rule: AddRecord_loop_cases)
    case (break s0)
    then show ?thesis by simp
  next
    case (last w0 ptr1)
    then show ?thesis
      using switch_block_inv [OF last(1) "1.prems"(2)] emit_fragment_inv [OF last(2)]
        switch_block_OK(4) [OF last(1)] emit_fragment_result(5) [OF last(2)]
      by (auto intro: same_config_trans)
  next
    case (more w0 w1 wt1 ptr1)
    have inv1: "writer_inv w1"
      using switch_block_inv [OF more(1) "1.prems"(2)] emit_fragment_inv [OF more(2)] by simp
    have "writer_inv w' \<and> same_config w1 w'"
      using "1.IH" [OF more(1) refl _ more(2) refl refl refl _ more(4) inv1] more(3) by simp
    then show ?thesis
      using switch_block_OK(4) [OF more(1)] emit_fragment_result(5) [OF more(2)]
      by (auto intro: same_config_trans)
  qed
qed


lemma AddRecord_cases:
  assumes "AddRecord record_bytes n wt w = Inr (s, w', wt')"
  obtains w1 where "\<not> recycle_log_files w"
    "AddRecord_loop w (map_option (\<lambda>t. t\<lparr>is_recycle := recycle_log_files w\<rparr>) wt) record_bytes True
       = Inr (s, w1, wt')"
    "w' = w1\<lparr>num_entries := num_entries w1 + n\<rparr>"
  using assms
  by (auto simp: AddRecord_def Let_def split: if_splits sum.splits prod.splits)

lemma writer_inv_num_entries [simp]: "writer_inv (w\<lparr>num_entries := k\<rparr>) = writer_inv w"
  by (simp add: writer_inv_def)

lemma AddRecord_inv:
  assumes "AddRecord record_bytes n wt w = Inr (OK, w', wt')" "writer_inv w"
  shows "writer_inv w'"
  using assms(1)
proof (cases rule: AddRecord_cases)
  case (1 w1)
  then show ?thesis using AddRecord_loop_inv [OF 1(2) assms(2)] by simp
qed

lemma reachable_inv: "reachable w \<Longrightarrow> writer_inv w"
proof (induction rule: reachable.induct)
  case (fresh d log_no recycle manual)
  then show ?case by (simp add: writer_inv_def new_Writer_def GetFileSize_def)
next
  case (added w record_bytes n wt w' wt')
  then show ?case using AddRecord_inv by blast
qed

text \<open>
  Claim C4, as amended. After every call of \<open>AddRecord\<close> that completes with status \<open>OK\<close>,
  from every reachable writer state and for every payload, the file size is
  \<open>block_counts * kBlockSize + block_offset\<close> and \<open>block_offset \<le> kBlockSize\<close>. The bound is
  not strict: a fragment that fills its block leaves \<open>block_offset = kBlockSize\<close>, and the
  next call switches to the new block.
\<close>

theorem AddRecord_block_alignment:
  assumes "reachable w" and "AddRecord record_bytes n wt w = Inr (OK, w', wt')"
  shows "GetFileSize (dest w') = block_counts w' * kBlockSize + block_offset w'
         \<and> block_offset w' \<le> kBlockSize"
  using AddRecord_inv [OF assms(2) reachable_inv [OF assms(1)]]
  by (simp add: writer_inv_def)

lemma Extend_Nil [simp]: "Extend crc [] = crc"
  by (simp add: Extend_def xor.assoc)

text \<open>Every scripted I/O operation succeeds.\<close>
definition io_succeeds :: "WritableFileWriter \<Rightarrow> bool" where
  "io_succeeds f \<longleftrightarrow> (\<forall>s \<in> set (io_script f). s = OK)"

lemma next_io_succeeds:
  assumes "io_succeeds f"
  shows "\<exists>f'. next_io f = (OK, f') \<and> file_data f' = file_data f \<and> io_succeeds f'"
  using assms by (cases "io_script f") (auto simp: next_io_def io_succeeds_def)

lemma Append_succeeds:
  assumes "io_succeeds f"
  shows "\<exists>f'. Append bytes f = (OK, f') \<and> file_data f' = file_data f @ bytes \<and> io_succeeds f'"
  using next_io_succeeds [OF assms] by (auto simp: Append_def io_succeeds_def)

lemma Flush_succeeds:
  assumes "io_succeeds f"
  shows "\<exists>f'. Flush f = (OK, f') \<and> file_data f' = file_data f \<and> io_succeeds f'"
  using next_io_succeeds [OF assms] by (auto simp: Flush_def)

text \<open>The seven bytes of a legacy header: masked CRC, length, type.\<close>
definition record_header :: "RecordType \<Rightarrow> byte list \<Rightarrow> byte list" where
  "record_header t ptr =
     EncodeFixed32 (Mask (Extend (type_crc t) ptr))
     @ [of_nat (length ptr mod 256), of_nat (length ptr div 256), of_nat (type_code t)]"

lemma EmitPhysicalRecord_legacy:
  assumes "type_code t < 5"
  shows "EmitPhysicalRecord t ptr w =
    (if \<not> length ptr \<le> 65535 \<or> \<not> block_offset w + kHeaderSize + length ptr \<le> kBlockSize
     then Inl AssertionFailed
     else
       let (s1, d1) = Append (record_header t ptr) (dest w);
           (s, d) =
             (if s1 = OK then
                let (s2, d2) = Append ptr d1
                in if s2 = OK then (if \<not> manual_flush w then Flush d2 else (s2, d2))
                   else (s2, d2)
              else (s1, d1))
       in Inr (s, w\<lparr>dest := d, block_offset := block_offset w + kHeaderSize + length ptr\<rparr>))"
  using assms
  by (simp add: EmitPhysicalRecord_def Let_def record_header_def kHeaderSize_def EncodeFixed32_def)

lemma EmitPhysicalRecord_succeeds:
  assumes "io_succeeds (dest w)" "type_code t < 5" "block_offset w + kHeaderSize + length ptr \<le> kBlockSize"
  shows "\<exists>w'. EmitPhysicalRecord t ptr w = Inr (OK, w')
           \<and> file_data (dest w') = file_data (dest w) @ record_header t ptr @ ptr
           \<and> block_offset w' = block_offset w + kHeaderSize + length ptr
           \<and> block_counts w' = block_counts w \<and> same_config w w' \<and> io_succeeds (dest w')"
proof -
  have n: "length ptr \<le> 65535" using assms(3) by (simp add: kBlockSize_def)
  from Append_succeeds [OF assms(1), of "record_header t ptr"] obtain d1 where
    d1: "Append (record_header t ptr) (dest w) = (OK, d1)"
      "file_data d1 = file_data (dest w) @ record_header t ptr" "io_succeeds d1" by auto
  from Append_succeeds [OF d1(3), of ptr] obtain d2 where
    d2: "Append ptr d1 = (OK, d2)" "file_data d2 = file_data d1 @ ptr" "io_succeeds d2" by auto
  from Flush_succeeds [OF d2(3)] obtain d3 where
    d3: "Flush d2 = (OK, d3)" "file_data d3 = file_data d2" "io_succeeds d3" by auto
  show ?thesis
    using assms(3) n d1 d2 d3
    by (simp add: EmitPhysicalRecord_legacy [OF assms(2)] Let_def same_config_def)
qed


lemma GetFirstEntryPhysicalOffset_legal:
  assumes "file_size = k * kBlockSize + bo" "bo + hs \<le> kBlockSize" "0 < hs" "hs < kBlockSize"
    "avail = kBlockSize - bo - hs"
  shows "GetFirstEntryPhysicalOffset file_size hs avail mod kBlockSize \<ge> hs"
proof (cases "avail \<ge> hs")
  case True
  then have "bo + hs < kBlockSize" using assms by simp
  then have "(k * kBlockSize + bo + hs) mod kBlockSize = bo + hs"
    by (simp add: add.assoc)
  then show ?thesis using True assms(1) by (simp add: GetFirstEntryPhysicalOffset_def)
next
  case False
  have "(hs + (file_size div kBlockSize + 1) * kBlockSize) mod kBlockSize = hs"
    using assms(4) by (simp only: mod_mult_self1 mod_less)
  then have "((file_size div kBlockSize + 1) * kBlockSize + hs) mod kBlockSize = hs"
    by (simp only: add.commute)
  then show ?thesis using False by (simp add: GetFirstEntryPhysicalOffset_def)
qed

text \<open>The caller's record after the first iteration of the loop has stored the offset
  of the entry in it.\<close>
definition recorded :: "Writer \<Rightarrow> WriteThread_Writer option \<Rightarrow> WriteThread_Writer option" where
  "recorded w wt =
     map_option (\<lambda>t. if wal_offset_of_wb_content t = uint64_max
                      then t\<lparr>wal_offset_of_wb_content :=
                             GetFirstEntryPhysicalOffset (GetFileSize (dest w)) (header_size_of w)
                               (kBlockSize - block_offset w - header_size_of w)\<rparr>
                      else t) wt"

lemma record_offset_succeeds:
  assumes "writer_inv w" "block_offset w + header_size_of w \<le> kBlockSize"
  shows "record_offset w wt (kBlockSize - block_offset w - header_size_of w) = Inr (recorded w wt)"
proof -
  have "GetFirstEntryPhysicalOffset (GetFileSize (dest w)) (header_size_of w)
          (kBlockSize - block_offset w - header_size_of w) mod kBlockSize \<ge> header_size_of w"
    using assms header_size_of_bounds [of w]
    by (intro GetFirstEntryPhysicalOffset_legal [where k = "block_counts w" and bo = "block_offset w"])
       (simp_all add: writer_inv_def)
  then show ?thesis using assms(1)
    by (cases wt) (simp_all add: record_offset_def recorded_def writer_inv_def Let_def)
qed

text \<open>The record type of a fragment, from its position in the record.\<close>
definition legacy_type :: "bool \<Rightarrow> bool \<Rightarrow> RecordType" where
  "legacy_type is_begin is_end =
     (if is_begin \<and> is_end then kFullType else if is_begin then kFirstType
      else if is_end then kLastType else kMiddleType)"

lemma legacy_type_code: "type_code (legacy_type b e) < 5"
  by (simp add: legacy_type_def)

lemma emit_fragment_legacy:
  assumes "\<not> recycle_log_files w"
  shows "emit_fragment w wt ptr is_begin =
    (if \<not> block_offset w + kHeaderSize \<le> kBlockSize then Inl AssertionFailed
     else
       case record_offset w wt (kBlockSize - block_offset w - kHeaderSize) of
         Inl e \<Rightarrow> Inl e
       | Inr wt' \<Rightarrow>
           (case EmitPhysicalRecord (legacy_type is_begin (length ptr = fragment_length w ptr))
                   (take (fragment_length w ptr) ptr) w of
              Inl e \<Rightarrow> Inl e
            | Inr (s, w') \<Rightarrow> Inr (s, w', wt', drop (fragment_length w ptr) ptr)))"
proof -
  have hs: "header_size_of w = kHeaderSize" using assms by (simp add: header_size_of_def)
  have fr: "(if length ptr < kBlockSize - block_offset w - kHeaderSize then length ptr
             else kBlockSize - block_offset w - kHeaderSize) = fragment_length w ptr"
    by (simp add: fragment_length_def hs min_def)
  have ty: "\<And>e. (if is_begin \<and> e then kFullType
       else if is_begin then kFirstType else if e then kLastType else kMiddleType) = legacy_type is_begin e"
    by (simp add: legacy_type_def)
  have room: "(int kBlockSize - int (block_offset w) \<ge> int kHeaderSize)
     \<longleftrightarrow> block_offset w + kHeaderSize \<le> kBlockSize" by auto
  show ?thesis
    unfolding emit_fragment_def Let_def hs fr room
    using assms by (simp only: if_False ty)
qed

lemma emit_fragment_succeeds:
  fixes w :: Writer and ptr :: "byte list" and is_begin :: bool
  assumes "\<not> recycle_log_files w" "io_succeeds (dest w)" "writer_inv w"
    "block_offset w + kHeaderSize \<le> kBlockSize"
  defines "frag \<equiv> fragment_length w ptr"
  defines "ty \<equiv> legacy_type is_begin (length ptr = frag)"
  shows "\<exists>w1. emit_fragment w wt ptr is_begin = Inr (OK, w1, recorded w wt, drop frag ptr)
           \<and> file_data (dest w1) = file_data (dest w) @ record_header ty (take frag ptr) @ take frag ptr
           \<and> block_offset w1 = block_offset w + kHeaderSize + frag
           \<and> block_counts w1 = block_counts w \<and> same_config w w1 \<and> io_succeeds (dest w1)"
proof -
  have hs: "header_size_of w = kHeaderSize" using assms(1) by (simp add: header_size_of_def)
  have len: "length (take frag ptr) = frag" by (simp add: frag_def fragment_length_def)
  have fits: "block_offset w + kHeaderSize + length (take frag ptr) \<le> kBlockSize"
    using assms(4) by (simp add: frag_def fragment_length_def hs)
  from EmitPhysicalRecord_succeeds [OF assms(2) legacy_type_code fits, of is_begin "length ptr = frag"]
  obtain w1 where w1: "EmitPhysicalRecord ty (take frag ptr) w = Inr (OK, w1)"
    "file_data (dest w1) = file_data (dest w) @ record_header ty (take frag ptr) @ take frag ptr"
    "block_offset w1 = block_offset w + kHeaderSize + length (take frag ptr)"
    "block_counts w1 = block_counts w" "same_config w w1" "io_succeeds (dest w1)"
    unfolding ty_def by blast
  have ro: "record_offset w wt (kBlockSize - block_offset w - kHeaderSize) = Inr (recorded w wt)"
    using record_offset_succeeds [OF assms(3), of wt] assms(4) hs by simp
  have "emit_fragment w wt ptr is_begin = Inr (OK, w1, recorded w wt, drop frag ptr)"
    unfolding emit_fragment_legacy [OF assms(1)] ro
    using assms(4) w1(1) by (simp add: frag_def ty_def)
  then show ?thesis using w1 len by auto
qed

lemma switch_block_succeeds:
  assumes "io_succeeds (dest w)" "block_offset w \<le> kBlockSize"
  shows "\<exists>w0. switch_block w = Inr (OK, w0) \<and> io_succeeds (dest w0)"
proof (cases "kBlockSize - block_offset w < header_size_of w \<and> block_offset w < kBlockSize")
  case True
  from Append_succeeds [OF assms(1), of "replicate (kBlockSize - block_offset w) 0"]
  obtain d where "Append (replicate (kBlockSize - block_offset w) 0) (dest w) = (OK, d)" "io_succeeds d"
    by auto
  then show ?thesis using True assms(2) header_size_of_bounds [of w]
    by (auto simp: switch_block_def Let_def nat_diff_distrib)
next
  case False
  then show ?thesis using assms
    by (auto simp: switch_block_def Let_def)
qed


lemma switch_block_none:
  assumes "block_offset w + header_size_of w \<le> kBlockSize"
  shows "switch_block w = Inr (OK, w)"
  using assms by (auto simp: switch_block_def Let_def)

lemma AddRecord_one_fragment:
  assumes "\<not> recycle_log_files w" "io_succeeds (dest w)" "writer_inv w"
    "block_offset w + kHeaderSize + length P \<le> kBlockSize"
  shows "\<exists>w'. AddRecord P n wt w
              = Inr (OK, w', recorded w (map_option (\<lambda>t. t\<lparr>is_recycle := False\<rparr>) wt))
           \<and> file_data (dest w') = file_data (dest w) @ record_header kFullType P @ P
           \<and> block_offset w' = block_offset w + kHeaderSize + length P
           \<and> block_counts w' = block_counts w
           \<and> num_entries w' = num_entries w + n"
proof -
  have hs: "header_size_of w = kHeaderSize" using assms(1) by (simp add: header_size_of_def)
  have sw: "switch_block w = Inr (OK, w)"
    using assms(4) by (intro switch_block_none) (simp add: hs)
  have frag: "fragment_length w P = length P"
    using assms(4) by (simp add: fragment_length_def hs)
  have room: "block_offset w + kHeaderSize \<le> kBlockSize" using assms(4) by simp
  from emit_fragment_succeeds [OF assms(1,2,3) room, of "map_option (\<lambda>t. t\<lparr>is_recycle := False\<rparr>) wt" P True]
  obtain w1 where w1:
    "emit_fragment w (map_option (\<lambda>t. t\<lparr>is_recycle := False\<rparr>) wt) P True
       = Inr (OK, w1, recorded w (map_option (\<lambda>t. t\<lparr>is_recycle := False\<rparr>) wt), [])"
    "file_data (dest w1) = file_data (dest w) @ record_header kFullType P @ P"
    "block_offset w1 = block_offset w + kHeaderSize + length P"
    "block_counts w1 = block_counts w" "same_config w w1"
    by (auto simp: frag legacy_type_def)
  have "AddRecord_loop w (map_option (\<lambda>t. t\<lparr>is_recycle := False\<rparr>) wt) P True
          = Inr (OK, w1, recorded w (map_option (\<lambda>t. t\<lparr>is_recycle := False\<rparr>) wt))"
    by (subst AddRecord_loop.simps) (simp add: sw w1(1))
  then show ?thesis using assms(1) w1(2-5)
    by (simp add: AddRecord_def same_config_def)
qed

text \<open>
  Claim C6. From \<open>block_offset = 0\<close>, with the legacy header of 7 bytes and I/O that
  succeeds, \<open>AddRecord\<close> of the empty payload returns \<open>OK\<close> and appends exactly 7 bytes:
  the masked CRC32C of the single type byte, the length 0 in two bytes, and the type
  \<open>kFullType\<close>; afterwards \<open>block_offset = 7\<close>.
\<close>

theorem AddRecord_empty_record:
  assumes "block_offset w = 0" and "\<not> recycle_log_files w" and "io_succeeds (dest w)"
    and "writer_inv w"
  shows "\<exists>w' wt'. AddRecord [] n wt w = Inr (OK, w', wt')
           \<and> file_data (dest w')
               = file_data (dest w) @ EncodeFixed32 (Mask (Value [of_nat (type_code kFullType)]))
                 @ [0, 0, of_nat (type_code kFullType)]
           \<and> length (EncodeFixed32 (Mask (Value [of_nat (type_code kFullType)]))
                     @ [0, 0, of_nat (type_code kFullType) :: byte]) = 7
           \<and> block_offset w' = 7"
proof -
  have "block_offset w + kHeaderSize + length ([] :: byte list) \<le> kBlockSize"
    using assms(1) by (simp add: kHeaderSize_def kBlockSize_def)
  from AddRecord_one_fragment [OF assms(2,3,4) this, of n wt]
  show ?thesis using assms(1)
    by (auto simp: record_header_def type_crc_def kHeaderSize_def EncodeFixed32_def)
qed

text \<open>A writer on an empty file, no recycling, no manual flush, every I/O operation
  succeeding.\<close>
definition fresh_writer :: Writer where
  "fresh_writer = new_Writer \<lparr>file_data = [], io_script = []\<rparr> 0 False False"

lemma fresh_writer_reachable: "reachable fresh_writer"
  unfolding fresh_writer_def by (rule reachable.fresh) simp

lemma fresh_writer_facts:
  "writer_inv fresh_writer" "io_succeeds (dest fresh_writer)"
  "\<not> recycle_log_files fresh_writer" "block_offset fresh_writer = 0"
  "file_data (dest fresh_writer) = []" "num_entries fresh_writer = 0" "block_counts fresh_writer = 0"
  by (simp_all add: fresh_writer_def writer_inv_def GetFileSize_def io_succeeds_def new_Writer_def)

text \<open>
  Claim C4 as stated fails: from the fresh writer, a payload of \<open>32761 = kBlockSize - 7\<close>
  bytes is written with status \<open>OK\<close> and leaves \<open>block_offset = kBlockSize\<close>, which is not
  below \<open>kBlockSize\<close>.
\<close>

theorem block_offset_reaches_kBlockSize:
  "reachable fresh_writer
   \<and> \<not> isl (AddRecord (replicate 32761 0) 1 None fresh_writer)
   \<and> fst (projr (AddRecord (replicate 32761 0) 1 None fresh_writer)) = OK
   \<and> \<not> block_offset (fst (snd (projr (AddRecord (replicate 32761 0) 1 None fresh_writer))))
         < kBlockSize"
proof -
  have "block_offset fresh_writer + kHeaderSize + length (replicate 32761 (0 :: byte)) \<le> kBlockSize"
    by (simp add: fresh_writer_facts kHeaderSize_def kBlockSize_def)
  from AddRecord_one_fragment [OF fresh_writer_facts(3,2,1) this, of 1 None]
  obtain w' where "AddRecord (replicate 32761 0) 1 None fresh_writer = Inr (OK, w', None)"
    "block_offset w' = kBlockSize"
    by (auto simp: fresh_writer_facts kHeaderSize_def kBlockSize_def recorded_def)
  then show ?thesis by (simp add: fresh_writer_reachable)
qed

text \<open>The fresh writer after one record with an empty payload.\<close>
definition after_empty_record :: Writer where
  "after_empty_record =
     \<lparr>dest = \<lparr>file_data = EncodeFixed32 (Mask (Value [1])) @ [0, 0, 1], io_script = []\<rparr>,
      block_offset = 7, num_entries = 1, block_counts = 0, log_number = 0,
      recycle_log_files = False, manual_flush = False\<rparr>"

lemma AddRecord_fresh_empty:
  "AddRecord [] 1 None fresh_writer = Inr (OK, after_empty_record, None)"
  unfolding AddRecord_def
  apply (subst AddRecord_loop.simps)
  apply (simp add: fresh_writer_def new_Writer_def switch_block_def emit_fragment_def
      record_offset_def EmitPhysicalRecord_def Append_def next_io_def Flush_def
      header_size_of_def kHeaderSize_def kBlockSize_def kRecyclableHeaderSize_def type_crc_def
      after_empty_record_def Let_def EncodeFixed32_def Extend_Nil)
  done

text \<open>The amended claim C4 at the fresh writer and the empty payload.\<close>

theorem AddRecord_block_alignment_witness:
  "reachable fresh_writer
   \<and> AddRecord [] 1 None fresh_writer = Inr (OK, after_empty_record, None)
   \<and> GetFileSize (dest after_empty_record)
       = block_counts after_empty_record * kBlockSize + block_offset after_empty_record
   \<and> block_offset after_empty_record \<le> kBlockSize"
  using AddRecord_block_alignment [OF fresh_writer_reachable AddRecord_fresh_empty]
    fresh_writer_reachable AddRecord_fresh_empty by simp

text \<open>Claim C6 at the fresh writer.\<close>

theorem AddRecord_empty_record_witness:
  "block_offset fresh_writer = 0 \<and> \<not> recycle_log_files fresh_writer
   \<and> io_succeeds (dest fresh_writer) \<and> writer_inv fresh_writer
   \<and> (\<exists>w' wt'. AddRecord [] 1 None fresh_writer = Inr (OK, w', wt')
           \<and> file_data (dest w')
               = file_data (dest fresh_writer) @ EncodeFixed32 (Mask (Value [of_nat (type_code kFullType)]))
                 @ [0, 0, of_nat (type_code kFullType)]
           \<and> length (EncodeFixed32 (Mask (Value [of_nat (type_code kFullType)]))
                     @ [0, 0, of_nat (type_code kFullType) :: byte]) = 7
           \<and> block_offset w' = 7)"
  using AddRecord_empty_record [OF fresh_writer_facts(4,3,2,1), of 1 None] fresh_writer_facts
  by simp



















subsection \<open>Blob reader\<close>

lemma check_middle_skipped:
  "check_middle header_size data (int head_size) (- int tail_size) = Inr ()"
  by (subst check_middle.simps) (simp add: kBlockSize_def)

lemma unat_byte_of_nat: "unat (of_nat (v mod 256) :: byte) = v mod 256"
  by (simp add: unat_of_nat)

lemma decode_encode_le: "v < 256 ^ k \<Longrightarrow> decode_le (encode_le k v) = v"
proof (induction k arbitrary: v)
  case 0
  then show ?case by simp
next
  case (Suc k)
  then have "v div 256 < 256 ^ k" by (simp add: less_mult_imp_div_less mult.commute)
  with Suc.IH have "decode_le (encode_le k (v div 256)) = v div 256" by simp
  then show ?case by (simp add: unat_byte_of_nat)
qed

lemma DefaultLogHandle_of_bytes:
  assumes "offset h < 2 ^ 64" "length_h h < 2 ^ 32"
  shows "DefaultLogHandle_of (handle_bytes h) = h"
proof -
  have a: "decode_le (encode_le 8 (offset h)) = offset h"
    using assms(1) by (intro decode_encode_le) simp
  have b: "decode_le (encode_le 4 (length_h h)) = length_h h"
    using assms(2) by (intro decode_encode_le) simp
  have c: "decode_le (encode_le 2 (unat x)) = unat x" for x :: "16 word"
    using unsigned_less [of x] by (intro decode_encode_le) simp
  show ?thesis
    by (simp add: DefaultLogHandle_of_def handle_bytes_def a b c)
qed

lemma length_handle_bytes [simp]: "length (handle_bytes h) = kDefaultLogHandleSize"
  by (simp add: handle_bytes_def kDefaultLogHandleSize_def)

text \<open>The blob GetBlob allocates and fills from the file.\<close>
definition read_blob :: "nat \<Rightarrow> byte list \<Rightarrow> Blob" where
  "read_blob phys bytes = \<lparr>b_buf = bytes, b_size = phys, b_slice = length bytes\<rparr>"

lemma GetBlob_miss:
  assumes "length log_handle = kDefaultLogHandleSize"
    and "Lookup blob_cache c (GenerateCacheUniqueId rdr log_handle) = None"
    and "blob_sizes rdr (DefaultLogHandle_of log_handle) = Inr (phys, head_size, tail_size)"
    and "Read (src rdr) (offset (DefaultLogHandle_of log_handle)) phys = (OK, bytes)"
    and "bytes \<noteq> []" "length bytes = phys"
  shows "GetBlob Crc16c_update blob_cache rdr c log_handle =
    (if head_size \<noteq> 0
        \<and> head_crc (DefaultLogHandle_of log_handle) \<noteq> Crc16c_update 0 (take head_size bytes)
     then Inl AssertionFailed
     else if tail_size \<noteq> 0
        \<and> Crc16c_update 0 (drop (phys - tail_size) bytes) \<noteq> tail_crc (DefaultLogHandle_of log_handle)
     then Inl AssertionFailed
     else
       case (if head_size \<noteq> length_h (DefaultLogHandle_of log_handle)
             then ShrinkVal head_size (wal_header_size rdr) (read_blob phys bytes)
             else Inr (read_blob phys bytes)) of
         Inl e \<Rightarrow> Inl e
       | Inr blob' \<Rightarrow>
           (case Insert blob_cache c (GenerateCacheUniqueId rdr log_handle) blob'
                   (sizeof_Blob + b_size blob') of
              (s', c') \<Rightarrow> if s' \<noteq> OK then Inl AssertionFailed
                          else Inr (OK, slice_of blob', c', 1)))"
proof -
  have blob: "new_Blob phys\<lparr>b_buf := bytes @ drop (length bytes) (b_buf (new_Blob phys)),
                            b_slice := length bytes\<rparr> = read_blob phys bytes"
    using assms(6) by (simp add: new_Blob_def read_blob_def)
  have sl: "slice_of (read_blob phys bytes) = bytes"
    by (simp add: slice_of_def read_blob_def)
  have tl: "take tail_size (drop (phys - tail_size) bytes) = drop (phys - tail_size) bytes"
    using assms(6) by simp
  have bs: "b_slice (read_blob phys bytes) = phys" "b_size (read_blob phys bytes) = phys"
    using assms(6) by (simp_all add: read_blob_def)
  have ok: "\<not> \<not> (phys \<noteq> 0 \<and> phys = phys)" using assms(5,6) by auto
  show ?thesis
    unfolding GetBlob_def Let_def assms(1,2,3,4) option.case sum.case prod.case blob sl bs tl
      check_middle_skipped
    using ok by (simp split: prod.splits)
qed


lemma slice_of_read_blob [simp]: "length bytes = phys \<Longrightarrow> slice_of (read_blob phys bytes) = bytes"
  by (simp add: slice_of_def read_blob_def)





lemma blob_sizes_single:
  assumes "length_h content \<le> kBlockSize - offset content mod kBlockSize"
  shows "blob_sizes rdr content = Inr (length_h content, length_h content, 0)"
  using assms by (simp add: blob_sizes_def GetPhysicalLength_def Let_def)


text \<open>The cache keeps what is inserted under the key, whatever its state.\<close>
definition cache_accepts :: "'c Cache \<Rightarrow> 'c \<Rightarrow> byte list \<Rightarrow> bool" where
  "cache_accepts blob_cache c key \<longleftrightarrow> (\<forall>b charge. fst (Insert blob_cache c key b charge) = OK)"

lemma Read_middle:
  assumes "src_bytes f = pre @ body @ later" "read_result f = OK"
  shows "Read f (length pre) (length body) = (OK, body)"
  using assms by (simp add: Read_def)

lemma GetBlob_single_block:
  assumes fl: "src_bytes (src rdr) = pre @ P @ later" "read_result (src rdr) = OK"
    and P: "P \<noteq> []" "length P \<le> kBlockSize - length pre mod kBlockSize"
    and small: "length pre < 2 ^ 64" "length P < 2 ^ 32"
    and content: "offset content = length pre" "length_h content = length P"
      "head_crc content = Crc16c_update 0 P"
    and miss: "Lookup blob_cache c (GenerateCacheUniqueId rdr (handle_bytes content)) = None"
    and acc: "cache_accepts blob_cache c (GenerateCacheUniqueId rdr (handle_bytes content))"
  shows "\<exists>c'. GetBlob Crc16c_update blob_cache rdr c (handle_bytes content) = Inr (OK, P, c', 1)"
proof -
  have dec: "DefaultLogHandle_of (handle_bytes content) = content"
    using small content by (intro DefaultLogHandle_of_bytes) simp_all
  have sz: "blob_sizes rdr (DefaultLogHandle_of (handle_bytes content)) = Inr (length P, length P, 0)"
    unfolding dec using blob_sizes_single [of content rdr] P(2) content by simp
  have rd: "Read (src rdr) (offset (DefaultLogHandle_of (handle_bytes content))) (length P) = (OK, P)"
    unfolding dec content using Read_middle [OF fl] .
  obtain s' c' where ins: "Insert blob_cache c (GenerateCacheUniqueId rdr (handle_bytes content))
      (read_blob (length P) P) (sizeof_Blob + b_size (read_blob (length P) P)) = (s', c')"
    by (cases "Insert blob_cache c (GenerateCacheUniqueId rdr (handle_bytes content))
      (read_blob (length P) P) (sizeof_Blob + b_size (read_blob (length P) P))") auto
  with acc have s': "s' = OK" unfolding cache_accepts_def by (metis fst_conv)
  have "GetBlob Crc16c_update blob_cache rdr c (handle_bytes content) = Inr (OK, P, c', 1)"
    unfolding GetBlob_miss [OF length_handle_bytes miss sz rd P(1) refl] dec
    using content ins s' P(1) by simp
  then show ?thesis by blast
qed


text \<open>The offset in the block at which the next record starts, after the padding.\<close>
definition start_offset :: "Writer \<Rightarrow> nat" where
  "start_offset w =
     (if kBlockSize - block_offset w < header_size_of w then 0 else block_offset w)"

text \<open>The bytes of payload the block can still take after the header of the next
  record.\<close>
definition payload_room :: "Writer \<Rightarrow> nat" where
  "payload_room w = kBlockSize - start_offset w - header_size_of w"

text \<open>The caller's record with the offset computed from the file size before the
  first fragment.\<close>
definition recorded_at :: "Writer \<Rightarrow> WriteThread_Writer option \<Rightarrow> WriteThread_Writer option" where
  "recorded_at w wt =
     map_option (\<lambda>t. if wal_offset_of_wb_content t = uint64_max
                      then t\<lparr>wal_offset_of_wb_content :=
                             GetFirstEntryPhysicalOffset
                               (length (file_data (dest w)) + pad_length w) (header_size_of w)
                               (payload_room w)\<rparr>
                      else t) wt"







lemma recorded_at_set:
  assumes "wal_offset_of_wb_content t \<noteq> uint64_max"
  shows "recorded_at w (Some t) = Some t"
  using assms by (simp add: recorded_at_def)












text \<open>
  For the concrete examples: a 16-bit checksum in the place of \<^verbatim>\<open>terark::Crc16c_update\<close>,
  and a cache that keeps every blob it is given.
\<close>

definition sum16 :: "16 word \<Rightarrow> byte list \<Rightarrow> 16 word" where
  "sum16 init data = foldl (\<lambda>acc b. acc + ucast b) init data"

text \<open>A cache that is a map from keys to blobs and never evicts.\<close>
definition map_cache :: "(byte list \<Rightarrow> Blob option) Cache" where
  "map_cache =
     \<lparr>Lookup = (\<lambda>c key. c key),
      Insert = (\<lambda>c key b charge. (OK, c(key \<mapsto> b)))\<rparr>"

lemma map_cache_facts:
  "Lookup map_cache Map.empty key = None"
  "cache_accepts map_cache c key"
  "Insert map_cache c key b charge = (OK, c') \<Longrightarrow> Lookup map_cache c' key = Some b"
  by (auto simp: map_cache_def cache_accepts_def)




text \<open>The header of the record with payload 1, 2, 3.\<close>
definition abc_header :: "byte list" where
  "abc_header = EncodeFixed32 (Mask (Extend (type_crc kFullType) [1, 2, 3])) @ [3, 0, 1]"

text \<open>The fresh writer after the record with payload 1, 2, 3.\<close>
definition after_abc_record :: Writer where
  "after_abc_record =
     \<lparr>dest = \<lparr>file_data = abc_header @ [1, 2, 3], io_script = []\<rparr>,
      block_offset = 10, num_entries = 1, block_counts = 0, log_number = 0,
      recycle_log_files = False, manual_flush = False\<rparr>"

lemma length_abc_header [simp]: "length abc_header = 7"
  by (simp add: abc_header_def EncodeFixed32_def)


text \<open>A reader on the file of the fresh writer after the record 1, 2, 3.\<close>
definition abc_reader :: WalBlobReader where
  "abc_reader =
     new_WalBlobReader
       \<lparr>src_bytes = file_data (dest after_abc_record), read_result = OK, unique_id = []\<rparr> 0 0"

lemma abc_reader_facts:
  "src_bytes (src abc_reader) = file_data (dest after_abc_record) @ []"
  "src_bytes (src abc_reader) = abc_header @ [1, 2, 3] @ []"
  "read_result (src abc_reader) = OK" "wal_header_size abc_reader = kHeaderSize"
  by (simp_all add: abc_reader_def new_WalBlobReader_def after_abc_record_def)







lemma sum16_abc [simp]: "sum16 0 [1, 2, 3] = 6"
  by (simp add: sum16_def)

text \<open>A handle for the three bytes at offset 7 with the given checksums.\<close>
definition abc_handle :: "16 word \<Rightarrow> 16 word \<Rightarrow> byte list" where
  "abc_handle hc tc = handle_bytes \<lparr>offset = 7, length_h = 3, head_crc = hc, tail_crc = tc\<rparr>"

lemma abc_handle_facts:
  "DefaultLogHandle_of (abc_handle hc tc) = \<lparr>offset = 7, length_h = 3, head_crc = hc, tail_crc = tc\<rparr>"
  "length (abc_handle hc tc) = kDefaultLogHandleSize"
  "blob_sizes abc_reader (DefaultLogHandle_of (abc_handle hc tc)) = Inr (3, 3, 0)"
  "Read (src abc_reader) (offset (DefaultLogHandle_of (abc_handle hc tc))) 3 = (OK, [1, 2, 3])"
proof -
  show d: "DefaultLogHandle_of (abc_handle hc tc)
             = \<lparr>offset = 7, length_h = 3, head_crc = hc, tail_crc = tc\<rparr>"
    unfolding abc_handle_def by (rule DefaultLogHandle_of_bytes) simp_all
  show "length (abc_handle hc tc) = kDefaultLogHandleSize" by (simp add: abc_handle_def)
  show "blob_sizes abc_reader (DefaultLogHandle_of (abc_handle hc tc)) = Inr (3, 3, 0)"
    unfolding d using blob_sizes_single [of "\<lparr>offset = 7, length_h = 3, head_crc = hc, tail_crc = tc\<rparr>" abc_reader]
    by (simp add: kBlockSize_def)
  show "Read (src abc_reader) (offset (DefaultLogHandle_of (abc_handle hc tc))) 3 = (OK, [1, 2, 3])"
    unfolding d using Read_middle [OF abc_reader_facts(2,3)] by (simp add: numeral_3_eq_3)
qed


lemma GetBlob_Inr_cases:
  assumes "GetBlob Crc16c_update blob_cache rdr c log_handle = Inr (s1, payload, c1, k)"
  shows "s1 = OK
         \<and> ((\<exists>b. Lookup blob_cache c (GenerateCacheUniqueId rdr log_handle) = Some b
                 \<and> payload = slice_of b \<and> c1 = c \<and> k = 0)
            \<or> (Lookup blob_cache c (GenerateCacheUniqueId rdr log_handle) = None
                \<and> (\<exists>blob' charge.
                      Insert blob_cache c (GenerateCacheUniqueId rdr log_handle) blob' charge
                        = (OK, c1)
                      \<and> payload = slice_of blob' \<and> k = 1)))"
  using assms
  unfolding GetBlob_def Let_def
  by (auto split: if_splits option.splits sum.splits prod.splits)

text \<open>
  Claim C9. When a call of \<open>GetBlob\<close> returns and the cache keeps the blob inserted under
  the key of the handle, a second call for the same handle on the cache the first call
  left returns the same bytes and makes no read of the file.
\<close>

theorem GetBlob_second_call_from_cache:
  assumes first: "GetBlob Crc16c_update blob_cache rdr c log_handle = Inr (s1, payload, c1, k)"
    and keeps: "\<forall>b charge c'.
                  Insert blob_cache c (GenerateCacheUniqueId rdr log_handle) b charge = (OK, c')
                  \<longrightarrow> Lookup blob_cache c' (GenerateCacheUniqueId rdr log_handle) = Some b"
  shows "GetBlob Crc16c_update blob_cache rdr c1 log_handle = Inr (OK, payload, c1, 0)"
proof -
  have len: "length log_handle = kDefaultLogHandleSize"
    using first unfolding GetBlob_def by (auto split: if_splits)
  from GetBlob_Inr_cases [OF first] keeps
  obtain b where "Lookup blob_cache c1 (GenerateCacheUniqueId rdr log_handle) = Some b"
    "payload = slice_of b" by blast
  then show ?thesis using len by (simp add: GetBlob_def)
qed

text \<open>Claim C9 at the record of the bytes 1, 2, 3 and the cache that keeps every blob.\<close>

theorem GetBlob_second_call_from_cache_witness:
  "\<exists>c1. GetBlob sum16 map_cache abc_reader Map.empty (abc_handle 6 0)
          = Inr (OK, [1, 2, 3], c1, 1)
        \<and> Lookup map_cache c1 (GenerateCacheUniqueId abc_reader (abc_handle 6 0)) \<noteq> None
        \<and> GetBlob sum16 map_cache abc_reader c1 (abc_handle 6 0) = Inr (OK, [1, 2, 3], c1, 0)"
proof -
  have good: "sum16 0 (take 3 [1, 2, 3]) = head_crc (DefaultLogHandle_of (abc_handle 6 0))"
    and le: "length_h (DefaultLogHandle_of (abc_handle 6 0)) \<le> 3"
    by (simp_all add: abc_handle_facts(1))
  have "\<exists>c'. GetBlob sum16 map_cache abc_reader Map.empty (abc_handle 6 0)
             = Inr (OK, [1, 2, 3], c', 1)"
    using GetBlob_single_block [where pre = abc_header and P = "[1, 2, 3]" and later = "[]"
        and rdr = abc_reader and Crc16c_update = sum16
        and content = "\<lparr>offset = 7, length_h = 3, head_crc = 6, tail_crc = 0\<rparr>"
        and blob_cache = map_cache and c = Map.empty]
      abc_reader_facts(2,3) map_cache_facts(1,2)
    by (simp add: abc_handle_def kBlockSize_def)
  then obtain c1 where first: "GetBlob sum16 map_cache abc_reader Map.empty (abc_handle 6 0)
             = Inr (OK, [1, 2, 3], c1, 1)" by blast
  have keeps: "\<forall>b charge c'.
              Insert map_cache Map.empty (GenerateCacheUniqueId abc_reader (abc_handle 6 0)) b charge
                = (OK, c')
              \<longrightarrow> Lookup map_cache c' (GenerateCacheUniqueId abc_reader (abc_handle 6 0)) = Some b"
    using map_cache_facts(3) by blast
  have "Lookup map_cache c1 (GenerateCacheUniqueId abc_reader (abc_handle 6 0)) \<noteq> None"
    using GetBlob_Inr_cases [OF first] keeps by (auto simp: map_cache_facts(1))
  with GetBlob_second_call_from_cache [OF first keeps] first
  show ?thesis by blast
qed

text \<open>
  The scan of the middle fragments as the source writes it, from \<open>data + head_size\<close> up to
  \<open>data - tail_size - kBlockSize\<close>: its body never runs, whatever the buffer holds.
\<close>

theorem middle_scan_checks_nothing:
  "check_middle header_size data (int head_size) (- int tail_size) = Inr ()"
  by (rule check_middle_skipped)

lemma memmove_replicate:
  assumes "src_off + n \<le> m" "dst + n \<le> m"
  shows "memmove (replicate m x) dst src_off n = Inr (replicate m x)"
proof -
  have "replicate dst x @ replicate n x @ replicate (m - (dst + n)) x = replicate m x"
    using assms(2) by (simp add: replicate_add [symmetric])
  then show ?thesis using assms by (simp add: memmove_def min_def)
qed

lemma sum16_zeros [simp]: "sum16 init (replicate n 0) = init"
  by (induction n) (simp_all add: sum16_def)

text \<open>A reader on a file of 65548 zero bytes, which is not a log: no header in it has
  a valid checksum or type.\<close>
definition zero_file_reader :: WalBlobReader where
  "zero_file_reader =
     new_WalBlobReader \<lparr>src_bytes = replicate 65548 0, read_result = OK, unique_id = []\<rparr> 0 0"

text \<open>A handle for 65527 bytes at offset 7: the record spans three blocks, the whole
  of the second one being a middle fragment.\<close>
definition three_fragment_handle :: "byte list" where
  "three_fragment_handle =
     handle_bytes \<lparr>offset = 7, length_h = 65527, head_crc = 0, tail_crc = 0\<rparr>"

lemma ShrinkVal_zero_buffer:
  "ShrinkVal 32761 7 (read_blob 65541 (replicate 65541 0))
     = Inr \<lparr>b_buf = replicate 65541 0, b_size = 65527, b_slice = 65527\<rparr>"
proof -
  have s1: "ShrinkVal_loop 7 (replicate 65541 0) 65527 0 = Inr (replicate 65541 0, 65527)"
    by (subst ShrinkVal_loop.simps) simp
  have s2: "ShrinkVal_loop 7 (replicate 65541 0) 65515 19 = Inr (replicate 65541 0, 65527)"
    by (subst ShrinkVal_loop.simps)
       (simp add: Let_def size_t_sub_def kBlockSize_def memmove_replicate s1)
  have s3: "ShrinkVal_loop 7 (replicate 65541 0) 32761 32780 = Inr (replicate 65541 0, 65527)"
    by (subst ShrinkVal_loop.simps)
       (simp add: Let_def size_t_sub_def kBlockSize_def memmove_replicate s2)
  show ?thesis
    by (simp add: ShrinkVal_def read_blob_def size_t_sub_def s3)
qed

text \<open>
  Claim C2 fails on the code. A record of 65527 bytes at offset 7 has three fragments, and
  in a file of zero bytes the header of its middle fragment has the type 0, not
  \<open>kMiddleType\<close>, and a CRC that does not match. \<open>GetBlob\<close> returns \<open>OK\<close>.
\<close>

theorem GetBlob_accepts_bad_middle_fragment:
  "src_bytes (src zero_file_reader) ! (7 + 32761 + 6) \<noteq> of_nat (type_code kMiddleType)
   \<and> blob_sizes zero_file_reader (DefaultLogHandle_of three_fragment_handle)
       = Inr (65541, 32761, 5)
   \<and> GetBlob sum16 map_cache zero_file_reader Map.empty three_fragment_handle
       = Inr (OK, replicate 65527 0,
              [GenerateCacheUniqueId zero_file_reader three_fragment_handle
                 \<mapsto> \<lparr>b_buf = replicate 65541 0, b_size = 65527, b_slice = 65527\<rparr>], 1)"
proof -
  let ?content = "\<lparr>offset = 7, length_h = 65527, head_crc = 0 :: 16 word, tail_crc = 0 :: 16 word\<rparr>"
  have dec: "DefaultLogHandle_of three_fragment_handle = ?content"
    unfolding three_fragment_handle_def by (rule DefaultLogHandle_of_bytes) simp_all
  have hs: "wal_header_size zero_file_reader = 7"
    by (simp add: zero_file_reader_def new_WalBlobReader_def kHeaderSize_def)
  have sz: "blob_sizes zero_file_reader (DefaultLogHandle_of three_fragment_handle)
              = Inr (65541, 32761, 5)"
    unfolding dec
    by (simp add: blob_sizes_def GetPhysicalLength_def Let_def hs kBlockSize_def size_t_sub_def)
  have rd: "Read (src zero_file_reader) (offset (DefaultLogHandle_of three_fragment_handle)) 65541
              = (OK, replicate 65541 0)"
    unfolding dec by (simp add: Read_def zero_file_reader_def new_WalBlobReader_def)
  have ne: "replicate 65541 (0 :: byte) \<noteq> []" by simp
  have len: "length (replicate 65541 (0 :: byte)) = 65541" by simp
  have tag: "src_bytes (src zero_file_reader) ! (7 + 32761 + 6) \<noteq> of_nat (type_code kMiddleType)"
    by (simp add: zero_file_reader_def new_WalBlobReader_def)
  have lh: "length three_fragment_handle = kDefaultLogHandleSize"
    by (simp add: three_fragment_handle_def)
  have "GetBlob sum16 map_cache zero_file_reader Map.empty three_fragment_handle
       = Inr (OK, replicate 65527 0,
              [GenerateCacheUniqueId zero_file_reader three_fragment_handle
                 \<mapsto> \<lparr>b_buf = replicate 65541 0, b_size = 65527, b_slice = 65527\<rparr>], 1)"
    unfolding GetBlob_miss [OF lh map_cache_facts(1) sz rd ne len] dec hs
    by (simp add: ShrinkVal_zero_buffer slice_of_def map_cache_def)
  then show ?thesis using tag sz by simp
qed


text \<open>\<^verbatim>\<open>ShrinkVal\<close> on a record of three fragments. The buffer holds the rest of the first
  block, then a whole block (header and payload), then the header and the payload of the last
  fragment. The loop cuts the buffer into chunks of \<^verbatim>\<open>kBlockSize - record_header_size\<close> bytes,
  not of \<^verbatim>\<open>kBlockSize\<close>, and reads each chunk from the buffer it has already shifted: the
  header of the last fragment stays in the payload and the last \<^verbatim>\<open>record_header_size\<close> bytes
  of the record are dropped.\<close>

lemma ShrinkVal_loop_two:
  assumes "length P1 = cur" "length h1 = hs" "length h2 = hs" "length P2 = kBlockSize - hs"
    "hs \<le> length P3" "2 * hs + length P3 \<le> kBlockSize - hs" "0 < hs"
  shows "\<exists>b'. ShrinkVal_loop hs (P1 @ h1 @ P2 @ h2 @ P3) cur (kBlockSize + hs + length P3)
           = Inr (b', cur + (kBlockSize - hs) + length P3)
         \<and> take (cur + (kBlockSize - hs) + length P3) b'
             = P1 @ P2 @ h2 @ take (length P3 - hs) P3"
proof -
  let ?B = kBlockSize
  let ?buf = "P1 @ h1 @ P2 @ h2 @ P3"
  have hsB: "hs \<le> ?B" "2 * hs \<le> ?B" using assms(6) by simp_all
  have av: "size_t_sub ?B hs = ?B - hs" using hsB by (simp add: size_t_sub_def)
  have cs: "(if ?B - hs < ?B + hs + length P3 then ?B - hs else ?B + hs + length P3) = ?B - hs"
    using assms(7) hsB by simp
  have as: "size_t_sub (?B - hs) hs = ?B - 2 * hs" using hsB unfolding size_t_sub_def by auto
  have len: "length ?buf = cur + hs + (?B - hs) + hs + length P3"
    using assms(1,2,3,4) by simp
  have in1: "cur + hs + (?B - 2 * hs) \<le> length ?buf" "cur + (?B - 2 * hs) \<le> length ?buf"
    unfolding len using hsB by linarith+
  have m1: "take (?B - 2 * hs) (drop (cur + hs) ?buf) = take (?B - 2 * hs) P2"
    using assms(1,2,4) by simp
  have d0: "drop (cur + (?B - 2 * hs)) ?buf = drop (?B - 2 * hs) (h1 @ P2 @ h2 @ P3)"
    using assms(1) by simp
  have "?B - 2 * hs - hs = ?B - 3 * hs" by simp
  moreover have "hs \<le> ?B - 2 * hs" using assms(6) by linarith
  ultimately have d1: "drop (?B - 2 * hs) (h1 @ P2 @ h2 @ P3) = drop (?B - 3 * hs) P2 @ h2 @ P3"
    using assms(2,4) hsB by simp
  have mv1: "memmove ?buf cur (cur + hs) (?B - 2 * hs)
      = Inr (P1 @ take (?B - 2 * hs) P2 @ drop (?B - 3 * hs) P2 @ h2 @ P3)"
    unfolding memmove_def using in1 assms(1) by (simp only: if_True m1 d0 d1 take_append) simp
  define b1 where "b1 = P1 @ take (?B - 2 * hs) P2 @ drop (?B - 3 * hs) P2 @ h2 @ P3"
  define cur1 where "cur1 = cur + (?B - 2 * hs)"
  have rem: "?B + hs + length P3 - (?B - hs) = 2 * hs + length P3" using hsB by simp
  have cs2: "(if ?B - hs < 2 * hs + length P3 then ?B - hs else 2 * hs + length P3)
      = 2 * hs + length P3" using assms(6) by simp
  have as2: "size_t_sub (2 * hs + length P3) hs = hs + length P3" by (simp add: size_t_sub_def)
  have lb1: "length b1 = cur + (?B - 2 * hs) + 2 * hs + hs + length P3"
    using assms(1,2,3,4,6,7) by (simp add: b1_def)
  have pre: "take cur1 b1 = P1 @ take (?B - 2 * hs) P2"
    using assms(1,4) hsB by (simp add: b1_def cur1_def)
  have src: "take (hs + length P3) (drop (cur1 + hs) b1)
      = drop (?B - 2 * hs) P2 @ take (length P3) (h2 @ P3)"
    using assms(1,3,4,6,7) by (simp add: b1_def cur1_def)
  obtain b2 where mv2: "memmove b1 cur1 (cur1 + hs) (hs + length P3) = Inr b2"
    and b2: "take (cur1 + (hs + length P3)) b2
        = P1 @ take (?B - 2 * hs) P2 @ drop (?B - 2 * hs) P2 @ take (length P3) (h2 @ P3)"
    using lb1 pre src by (simp add: memmove_def cur1_def)
  have fin: "ShrinkVal_loop hs b (cur1 + (hs + length P3)) 0 = Inr (b, cur1 + (hs + length P3))" for b
    by (subst ShrinkVal_loop.simps) simp
  have ge: "\<not> ?B - hs < hs" using hsB by linarith
  have ge2: "\<not> 2 * hs + length P3 < hs" by simp
  have pos: "0 < ?B + hs + length P3" "0 < 2 * hs + length P3" using assms(7) by simp_all
  have z: "2 * hs + length P3 - (2 * hs + length P3) = 0" by simp
  have step2: "ShrinkVal_loop hs b1 cur1 (2 * hs + length P3) = Inr (b2, cur1 + (hs + length P3))"
    apply (subst ShrinkVal_loop.simps)
    apply (simp only: Let_def av cs2 as2 mv2 sum.case pos if_True ge2 if_False z fin)
    done
  have step1: "ShrinkVal_loop hs ?buf cur (?B + hs + length P3) = Inr (b2, cur1 + (hs + length P3))"
    apply (subst ShrinkVal_loop.simps)
    apply (simp only: Let_def av cs as mv1 sum.case rem pos if_True ge if_False
        b1_def [symmetric] cur1_def [symmetric] step2)
    done
  have c: "cur1 + (hs + length P3) = cur + (?B - hs) + length P3"
    using hsB assms(7) by (simp add: cur1_def)
  have t: "take (length P3) (h2 @ P3) = h2 @ take (length P3 - hs) P3"
    using assms(3,5) by simp
  show ?thesis
    using step1 b2 unfolding c t by simp
qed

lemma ShrinkVal_three_fragments:
  assumes "length P1 = cur" "length h1 = hs" "length h2 = hs" "length P2 = kBlockSize - hs"
    "hs \<le> length P3" "2 * hs + length P3 \<le> kBlockSize - hs" "0 < hs" "0 < cur"
    "phys = cur + kBlockSize + hs + length P3"
  shows "\<exists>blob'. ShrinkVal cur hs (read_blob phys (P1 @ h1 @ P2 @ h2 @ P3)) = Inr blob'
           \<and> slice_of blob' = P1 @ P2 @ h2 @ take (length P3 - hs) P3"
proof -
  have len: "length (P1 @ h1 @ P2 @ h2 @ P3) = phys"
    using assms(1,2,3,4,6,9) by simp
  have sub: "size_t_sub phys cur = kBlockSize + hs + length P3"
    using assms(9) by (simp add: size_t_sub_def)
  from ShrinkVal_loop_two [OF assms(1-7)] obtain b' where
    lp: "ShrinkVal_loop hs (P1 @ h1 @ P2 @ h2 @ P3) cur (kBlockSize + hs + length P3)
           = Inr (b', cur + (kBlockSize - hs) + length P3)"
    and tk: "take (cur + (kBlockSize - hs) + length P3) b' = P1 @ P2 @ h2 @ take (length P3 - hs) P3"
    by blast
  show ?thesis
    using assms(8) len tk
    by (simp add: ShrinkVal_def read_blob_def sub lp slice_of_def)
qed

subsection \<open>Index file\<close>



















subsection \<open>CRC masking\<close>

lemma rotate_back:
  fixes x :: "32 word"
  shows "drop_bit 17 (drop_bit 15 x OR push_bit 17 x)
         OR push_bit 15 (drop_bit 15 x OR push_bit 17 x) = x"
proof (rule bit_word_eqI)
  fix n
  assume n: "n < LENGTH(32)"
  show "bit (drop_bit 17 (drop_bit 15 x OR push_bit 17 x)
             OR push_bit 15 (drop_bit 15 x OR push_bit 17 x)) n = bit x n"
  proof (cases "n < 15")
    case True
    then show ?thesis using n by (auto simp add: bit_simps add.commute)
  next
    case False
    then have "15 + (n - 15) = n" by simp
    then show ?thesis using n False by (auto simp add: bit_simps)
  qed
qed

text \<open>
  Claim C8. For every 32-bit value \<open>x\<close>, unmasking the masked value gives \<open>x\<close> back, where
  \<open>Mask x = ((x >> 15) | (x << 17)) + 0xa282ead8\<close> modulo \<open>2 ^ 32\<close>.
\<close>

theorem Unmask_Mask: "Unmask (Mask x) = x"
  unfolding Mask_def Unmask_def Let_def
  by (simp only: add_diff_cancel_right' rotate_back)

end
